theory Spec2Isabelle
  imports Complex_Main "HOL-Library.Word"
begin

unbundle bit_operations_syntax

chapter \<open>The embedding\<close>

section \<open>Data model\<close>

text \<open>
  Vectors follow the glm types of the sources: \<^verbatim>\<open>glm::dvec3\<close> is a triple of
  coordinates, \<^verbatim>\<open>glm::i16vec3\<close> a triple of 16-bit words read as signed by \<open>sint\<close>,
  \<^verbatim>\<open>glm::u8vec3\<close> a triple of bytes.  Coordinates and occupancy values are exact
  real numbers here; rounding of the machine formats is outside the model.
\<close>

type_synonym dvec3 = "real \<times> real \<times> real"
type_synonym i16vec3 = "16 word \<times> 16 word \<times> 16 word"
type_synonym u8vec3 = "8 word \<times> 8 word \<times> 8 word"

text \<open>A voxel key: the region coordinate and the local coordinate inside the region.\<close>

record Key =
  regionKey :: i16vec3
  localKey :: u8vec3

text \<open>
  The occupancy layer of one region's chunk, indexed by the local coordinate.
  \<open>None\<close> is the unobserved sentinel.
\<close>

type_synonym MapChunk = "u8vec3 \<Rightarrow> real option"

text \<open>
  The fields of \<^verbatim>\<open>OccupancyMapDetail\<close> that the sources under study read
  (\<^verbatim>\<open>GpuNdtMap::finaliseBatch\<close>, \<^verbatim>\<open>lineKeysQueryGpu\<close>), with the table of regions.
\<close>

record OccupancyMapDetail =
  origin :: dvec3
  region_voxel_dimensions :: u8vec3
  resolution :: real
  occupancy_threshold_value :: real
  hit_value :: real
  miss_value :: real
  min_voxel_value :: real
  max_voxel_value :: real
  chunks :: "i16vec3 \<rightharpoonup> MapChunk"

subsection \<open>Ray flags\<close>

text \<open>
  Modelled from the spec: the \<^verbatim>\<open>RayFlag\<close> enumeration (its header is not among the
  sources).  The flags form a bit set in an \<^verbatim>\<open>unsigned\<close>; each flag is one bit of its
  own.  Only that the bits are distinct matters below.
\<close>

definition kRfEndPointAsFree :: "32 word" where
  "kRfEndPointAsFree = 1"

definition kRfStopOnFirstOccupied :: "32 word" where
  "kRfStopOnFirstOccupied = 2"

definition kRfClearOnly :: "32 word" where
  "kRfClearOnly = 4"

definition kRfExcludeOrigin :: "32 word" where
  "kRfExcludeOrigin = 8"

definition kRfExcludeSample :: "32 word" where
  "kRfExcludeSample = 16"

definition kRfExcludeUnobserved :: "32 word" where
  "kRfExcludeUnobserved = 32"

lemmas RayFlag_defs = kRfEndPointAsFree_def kRfStopOnFirstOccupied_def kRfClearOnly_def
  kRfExcludeOrigin_def kRfExcludeSample_def kRfExcludeUnobserved_def

section \<open>Region lookup in the GPU map detail (GpuMapDetail.h)\<close>

text \<open>
  \<^verbatim>\<open>RegionKeyMap\<close> is a \<^verbatim>\<open>std::unordered_multimap<unsigned, glm::i16vec3>\<close>.
  It is modelled by the list of its entries in iteration order; an iterator is a position
  in that list and \<^verbatim>\<open>end()\<close> is the length of the list.  The container keeps the
  entries with equal keys next to each other in its iteration order, which is the
  predicate \<open>grouped\<close>, and \<^verbatim>\<open>find\<close> yields the first entry of the group of its key
  (or \<^verbatim>\<open>end()\<close>).
\<close>

type_synonym RegionKeyMap = "(32 word \<times> i16vec3) list"

fun grouped_keys :: "32 word list \<Rightarrow> bool" where
  "grouped_keys [] = True"
| "grouped_keys [h] = True"
| "grouped_keys (h # h' # hs) = ((h = h' \<or> h \<notin> set (h' # hs)) \<and> grouped_keys (h' # hs))"

definition grouped :: "RegionKeyMap \<Rightarrow> bool" where
  "grouped regions = grouped_keys (map fst regions)"

definition multimap_find :: "RegionKeyMap \<Rightarrow> 32 word \<Rightarrow> nat" where
  "multimap_find regions region_hash = length (takeWhile (\<lambda>e. fst e \<noteq> region_hash) regions)"

function findRegion_loop :: "RegionKeyMap \<Rightarrow> 32 word \<Rightarrow> i16vec3 \<Rightarrow> nat \<Rightarrow> nat" where
  "findRegion_loop regions region_hash region_key iter =
     (if iter < length regions
         \<and> fst (regions ! iter) = region_hash \<and> snd (regions ! iter) \<noteq> region_key
      then findRegion_loop regions region_hash region_key (Suc iter)
      else iter)"
  by pat_completeness auto
termination
  by (relation "measure (\<lambda>(regions, h, k, iter). length regions - iter)") auto

declare findRegion_loop.simps [simp del]

definition findRegion :: "RegionKeyMap \<Rightarrow> 32 word \<Rightarrow> i16vec3 \<Rightarrow> nat" where
  "findRegion regions region_hash region_key =
     (let iter = findRegion_loop regions region_hash region_key (multimap_find regions region_hash)
      in if iter < length regions
            \<and> fst (regions ! iter) = region_hash \<and> snd (regions ! iter) = region_key
         then iter
         else length regions)"

section \<open>Batch finalisation of the NDT GPU map (GpuNdtMap.cpp)\<close>

text \<open>
  \<^verbatim>\<open>GpuNdtMap::finaliseBatch\<close> enqueues the kernels of one batch of rays.  A kernel
  invocation is recorded with the batch sizes and the scalar arguments the host passes;
  the device buffers, the events the kernels wait on and signal, and the batch markers
  of the layer caches are left out.  \<open>RegionRayUpdateNdt\<close> is \<^verbatim>\<open>update_kernel\<close>,
  the kernel that walks the rays and receives the ray flags; \<open>NdtHit\<close> is
  \<^verbatim>\<open>ndt_hit_kernel\<close>, the kernel that integrates the samples of the batch as hits:
  it receives the hit value and no ray flags.
\<close>

datatype kernel_call =
  RegionRayUpdateNdt (k_region_count: nat) (k_ray_count: nat) (k_miss_value: real)
    (k_hit_value: real) (k_threshold: real) (k_min_value: real) (k_max_value: real)
    (k_flags: "32 word")
| NdtHit (k_region_count: nat) (k_ray_count: nat) (k_hit_value: real) (k_threshold: real)
    (k_max_value: real)

text \<open>
  The host state of the batch: the index of the buffer pair being filled, the region and
  ray counts of the two buffer pairs, and the GPU queue as the list of the kernel
  invocations enqueued so far, oldest first.
\<close>

record GpuNdtMapDetail =
  next_buffers_index :: nat
  region_counts :: "nat list"
  ray_counts :: "nat list"
  gpu_queue :: "kernel_call list"

definition finaliseBatch ::
  "OccupancyMapDetail \<Rightarrow> GpuNdtMapDetail \<Rightarrow> 32 word \<Rightarrow> GpuNdtMapDetail" where
  "finaliseBatch omap imp region_update_flags =
     (let buf_idx = next_buffers_index imp;
          region_count = region_counts imp ! buf_idx;
          ray_count = ray_counts imp ! buf_idx;
          modify_flags = (if region_update_flags AND kRfEndPointAsFree = 0
                          then kRfExcludeSample else 0);
          miss_call = RegionRayUpdateNdt region_count ray_count (miss_value omap)
                        (hit_value omap) (occupancy_threshold_value omap) (min_voxel_value omap)
                        (max_voxel_value omap) (region_update_flags OR modify_flags);
          calls = (if region_update_flags AND (kRfExcludeSample OR kRfEndPointAsFree) = 0
                   then [miss_call,
                         NdtHit region_count ray_count (hit_value omap)
                           (occupancy_threshold_value omap) (max_voxel_value omap)]
                   else [miss_call])
      in imp\<lparr>gpu_queue := gpu_queue imp @ calls,
             region_counts := (region_counts imp)[buf_idx := 0],
             next_buffers_index := 1 - next_buffers_index imp\<rparr>)"

text \<open>Whether a queue holds an invocation of the hit kernel.\<close>

fun is_NdtHit :: "kernel_call \<Rightarrow> bool" where
  "is_NdtHit (NdtHit rc n h t mx) = True"
| "is_NdtHit (RegionRayUpdateNdt rc n ms h t mn mx f) = False"

section \<open>Ray patterns and clearing patterns (RayPattern.h, ClearingPattern.cpp)\<close>

subsection \<open>Vectors and rotations\<close>

fun vadd :: "dvec3 \<Rightarrow> dvec3 \<Rightarrow> dvec3" where
  "vadd (ax, ay, az) (bx, by, bz) = (ax + bx, ay + by, az + bz)"

fun vscale :: "real \<Rightarrow> dvec3 \<Rightarrow> dvec3" where
  "vscale s (x, y, z) = (s * x, s * y, s * z)"

fun cross :: "dvec3 \<Rightarrow> dvec3 \<Rightarrow> dvec3" where
  "cross (ax, ay, az) (bx, by, bz) = (ay * bz - az * by, az * bx - ax * bz, ax * by - ay * bx)"

text \<open>A \<^verbatim>\<open>glm::dquat\<close>: the scalar part \<open>qw\<close> and the vector part.\<close>

record dquat =
  qw :: real
  qx :: real
  qy :: real
  qz :: real

definition quat_identity :: dquat where
  "quat_identity = \<lparr>qw = 1, qx = 0, qy = 0, qz = 0\<rparr>"

text \<open>
  The rotation of a vector by a quaternion, \<^verbatim>\<open>rotation * v\<close>: with \<open>u\<close> the vector
  part, \<open>v + 2 (w (u \<times> v) + u \<times> (u \<times> v))\<close>.
\<close>

definition quat_rotate :: "dquat \<Rightarrow> dvec3 \<Rightarrow> dvec3" where
  "quat_rotate q v =
     (let u = (qx q, qy q, qz q);
          uv = cross u v;
          uuv = cross u uv
      in vadd v (vscale 2 (vadd (vscale (qw q) uv) uuv)))"

subsection \<open>RayPattern\<close>

text \<open>The detail of a \<^verbatim>\<open>RayPattern\<close>: the end points of its rays, relative to a common origin.\<close>

record RayPatternDetail =
  points :: "dvec3 list"

definition pointCount :: "RayPatternDetail \<Rightarrow> nat" where
  "pointCount pattern = length (points pattern)"

text \<open>
  Modelled from the spec: the body of \<^verbatim>\<open>RayPattern::buildRays\<close> (the header declares
  and documents it; its implementation file is not among the sources).  The ray set is
  cleared, then each point of the pattern adds a pair: \<open>position\<close>, and the point scaled,
  rotated and translated by \<open>position\<close>.  The result is the new ray set with the number
  of elements added.
\<close>

fun buildRays_loop :: "dvec3 list \<Rightarrow> dvec3 \<Rightarrow> dquat \<Rightarrow> real \<Rightarrow> dvec3 list \<Rightarrow> dvec3 list" where
  "buildRays_loop [] position rotation scaling rays = rays"
| "buildRays_loop (p # ps) position rotation scaling rays =
     buildRays_loop ps position rotation scaling
       (rays @ [position, vadd position (vscale scaling (quat_rotate rotation p))])"

definition buildRays ::
  "RayPatternDetail \<Rightarrow> dvec3 list \<Rightarrow> dvec3 \<Rightarrow> dquat \<Rightarrow> real \<Rightarrow> dvec3 list \<times> nat" where
  "buildRays pattern rays position rotation scaling =
     (let rays' = buildRays_loop (points pattern) position rotation scaling []
      in (rays', length rays'))"

subsection \<open>ClearingPattern\<close>

record ClearingPatternDetail =
  pattern :: RayPatternDetail
  has_pattern_ownership :: bool
  ray_set :: "dvec3 list"

text \<open>
  \<^verbatim>\<open>ClearingPattern::apply\<close>.  The map's \<^verbatim>\<open>integrateRays\<close> is the parameter
  \<open>integrate\<close>, called with the map, the ray array, its element count and the ray flags;
  the result pairs the pattern's detail, which keeps the ray set, with what the
  integration yields.
\<close>

definition ClearingPattern_apply ::
  "(OccupancyMapDetail \<Rightarrow> dvec3 list \<Rightarrow> nat \<Rightarrow> 32 word \<Rightarrow> 'r) \<Rightarrow>
   ClearingPatternDetail \<Rightarrow> OccupancyMapDetail \<Rightarrow> dvec3 \<Rightarrow> dquat \<Rightarrow> real \<Rightarrow>
   ClearingPatternDetail \<times> 'r" where
  "ClearingPattern_apply integrate imp omap position rotation scaling =
     (let imp' = imp\<lparr>ray_set := fst (buildRays (pattern imp) (ray_set imp) position rotation scaling)\<rparr>
      in (imp', integrate omap (ray_set imp') (length (ray_set imp'))
                  (kRfEndPointAsFree OR kRfStopOnFirstOccupied OR kRfClearOnly)))"

text \<open>\<^verbatim>\<open>ClearingPattern::buildRaySet\<close>: the ray set alone, with its element count.\<close>

definition buildRaySet ::
  "ClearingPatternDetail \<Rightarrow> dvec3 \<Rightarrow> dquat \<Rightarrow> real \<Rightarrow> ClearingPatternDetail \<times> nat \<times> dvec3 list" where
  "buildRaySet imp position rotation scaling =
     (let imp' = imp\<lparr>ray_set := fst (buildRays (pattern imp) (ray_set imp) position rotation scaling)\<rparr>
      in (imp', length (ray_set imp'), ray_set imp'))"

section \<open>Keys and region arithmetic\<close>

text \<open>
  Modelled from the spec: \<^verbatim>\<open>OccupancyMap::voxelKey\<close>, \<^verbatim>\<open>OccupancyMap::voxelCentre\<close>
  and the stepping of keys (the implementation of \<^verbatim>\<open>OccupancyMap\<close> and of \<^verbatim>\<open>Key\<close>
  is not among the sources).  A world point lies in the voxel whose index on each axis
  is the floor of the offset from the map origin in units of the resolution: cells are
  half open on their upper side and negative coordinates round down.  A voxel index
  splits into the region coordinate (the quotient by the region's voxel dimension, a
  signed 16-bit value) and the local coordinate (the remainder, a byte); a region
  coordinate outside the 16-bit range is truncated to it.  The centre of a voxel is half
  a resolution above its lower corner on each axis.
\<close>

definition pointToVoxel :: "real \<Rightarrow> real \<Rightarrow> real \<Rightarrow> int" where
  "pointToVoxel origin_a res p = \<lfloor>(p - origin_a) / res\<rfloor>"

definition voxelToKeyAxis :: "8 word \<Rightarrow> int \<Rightarrow> 16 word \<times> 8 word" where
  "voxelToKeyAxis rdim g = (word_of_int (g div uint rdim), word_of_int (g mod uint rdim))"

definition keyToVoxelAxis :: "8 word \<Rightarrow> 16 word \<times> 8 word \<Rightarrow> int" where
  "keyToVoxelAxis rdim rl = sint (fst rl) * uint rdim + uint (snd rl)"

definition voxelCentreAxis :: "real \<Rightarrow> real \<Rightarrow> int \<Rightarrow> real" where
  "voxelCentreAxis origin_a res g = origin_a + (of_int g + 1 / 2) * res"

fun pointToVoxel3 :: "dvec3 \<Rightarrow> real \<Rightarrow> dvec3 \<Rightarrow> int \<times> int \<times> int" where
  "pointToVoxel3 (ox, oy, oz) res (px, py, pz) =
     (pointToVoxel ox res px, pointToVoxel oy res py, pointToVoxel oz res pz)"

fun voxelToKey :: "u8vec3 \<Rightarrow> int \<times> int \<times> int \<Rightarrow> Key" where
  "voxelToKey (dx, dy, dz) (gx, gy, gz) =
     \<lparr>regionKey = (fst (voxelToKeyAxis dx gx), fst (voxelToKeyAxis dy gy), fst (voxelToKeyAxis dz gz)),
      localKey = (snd (voxelToKeyAxis dx gx), snd (voxelToKeyAxis dy gy), snd (voxelToKeyAxis dz gz))\<rparr>"

fun keyToVoxel3 :: "u8vec3 \<Rightarrow> i16vec3 \<Rightarrow> u8vec3 \<Rightarrow> int \<times> int \<times> int" where
  "keyToVoxel3 (dx, dy, dz) (rx, ry, rz) (lx, ly, lz) =
     (keyToVoxelAxis dx (rx, lx), keyToVoxelAxis dy (ry, ly), keyToVoxelAxis dz (rz, lz))"

definition keyToVoxel :: "u8vec3 \<Rightarrow> Key \<Rightarrow> int \<times> int \<times> int" where
  "keyToVoxel rdim k = keyToVoxel3 rdim (regionKey k) (localKey k)"

fun voxelCentre3 :: "dvec3 \<Rightarrow> real \<Rightarrow> int \<times> int \<times> int \<Rightarrow> dvec3" where
  "voxelCentre3 (ox, oy, oz) res (gx, gy, gz) =
     (voxelCentreAxis ox res gx, voxelCentreAxis oy res gy, voxelCentreAxis oz res gz)"

definition voxelKey :: "OccupancyMapDetail \<Rightarrow> dvec3 \<Rightarrow> Key" where
  "voxelKey omap p =
     voxelToKey (region_voxel_dimensions omap) (pointToVoxel3 (origin omap) (resolution omap) p)"

definition voxelCentre :: "OccupancyMapDetail \<Rightarrow> Key \<Rightarrow> dvec3" where
  "voxelCentre omap k =
     voxelCentre3 (origin omap) (resolution omap) (keyToVoxel (region_voxel_dimensions omap) k)"

text \<open>A key is valid for a map when each local coordinate is below the region dimension.\<close>

fun local_in_range :: "u8vec3 \<Rightarrow> u8vec3 \<Rightarrow> bool" where
  "local_in_range (dx, dy, dz) (lx, ly, lz) = (lx < dx \<and> ly < dy \<and> lz < dz)"

definition validKey :: "OccupancyMapDetail \<Rightarrow> Key \<Rightarrow> bool" where
  "validKey omap k = local_in_range (region_voxel_dimensions omap) (localKey k)"

text \<open>
  A point is inside the representable range of a map when the region coordinate of its
  voxel fits the signed 16-bit region key on each axis.
\<close>

definition region_representable :: "8 word \<Rightarrow> int \<Rightarrow> bool" where
  "region_representable rdim g = (- (2 ^ 15) \<le> g div uint rdim \<and> g div uint rdim < 2 ^ 15)"

fun representable3 :: "u8vec3 \<Rightarrow> int \<times> int \<times> int \<Rightarrow> bool" where
  "representable3 (dx, dy, dz) (gx, gy, gz) =
     (region_representable dx gx \<and> region_representable dy gy \<and> region_representable dz gz)"

definition representable :: "OccupancyMapDetail \<Rightarrow> dvec3 \<Rightarrow> bool" where
  "representable omap p =
     representable3 (region_voxel_dimensions omap) (pointToVoxel3 (origin omap) (resolution omap) p)"

text \<open>The map parameters the key arithmetic needs: a positive resolution and non-empty regions.\<close>

fun nonzero_dim :: "u8vec3 \<Rightarrow> bool" where
  "nonzero_dim (dx, dy, dz) = (dx \<noteq> 0 \<and> dy \<noteq> 0 \<and> dz \<noteq> 0)"

definition valid_grid :: "OccupancyMapDetail \<Rightarrow> bool" where
  "valid_grid omap = (0 < resolution omap \<and> nonzero_dim (region_voxel_dimensions omap))"

text \<open>The distance of two points on each axis is at most \<open>d\<close>.\<close>

fun axis_distance_le :: "real \<Rightarrow> dvec3 \<Rightarrow> dvec3 \<Rightarrow> bool" where
  "axis_distance_le d (ax, ay, az) (bx, by, bz) =
     (\<bar>ax - bx\<bar> \<le> d \<and> \<bar>ay - by\<bar> \<le> d \<and> \<bar>az - bz\<bar> \<le> d)"

text \<open>
  Stepping a key by a signed number of voxels along one axis, with the carry between the
  local and the region coordinate.
\<close>

datatype Axis = AxisX | AxisY | AxisZ

fun axis_get :: "Axis \<Rightarrow> 'a \<times> 'a \<times> 'a \<Rightarrow> 'a" where
  "axis_get AxisX (x, y, z) = x"
| "axis_get AxisY (x, y, z) = y"
| "axis_get AxisZ (x, y, z) = z"

fun axis_set :: "Axis \<Rightarrow> 'a \<Rightarrow> 'a \<times> 'a \<times> 'a \<Rightarrow> 'a \<times> 'a \<times> 'a" where
  "axis_set AxisX v (x, y, z) = (v, y, z)"
| "axis_set AxisY v (x, y, z) = (x, v, z)"
| "axis_set AxisZ v (x, y, z) = (x, y, v)"

definition stepKey :: "OccupancyMapDetail \<Rightarrow> Key \<Rightarrow> Axis \<Rightarrow> int \<Rightarrow> Key" where
  "stepKey omap k a delta =
     (let g = keyToVoxel (region_voxel_dimensions omap) k
      in voxelToKey (region_voxel_dimensions omap) (axis_set a (axis_get a g + delta) g))"

text \<open>The key of the voxel with the given local coordinates in the region \<open>(0, 0, 0)\<close>.\<close>

definition local_key :: "8 word \<Rightarrow> 8 word \<Rightarrow> 8 word \<Rightarrow> Key" where
  "local_key x y z = \<lparr>regionKey = (0, 0, 0), localKey = (x, y, z)\<rparr>"

section \<open>Line walking\<close>

text \<open>
  Modelled from the spec: the line walker behind \<^verbatim>\<open>OccupancyMap::calculateSegmentKeys\<close>
  (called by the sources, implemented outside them).  It is the three-dimensional
  digital differential analyser: the first key is always the key of the start point; each
  iteration steps one voxel along the axis whose accumulated crossing time \<open>t_max\<close> is
  smallest, comparing with \<open>\<le>\<close> and preferring x to y to z on ties, and adds the time
  to cross one voxel on that axis; it ends when the current key is the key of the end
  point.  The crossing time of an axis along which the segment does not travel is
  infinite, written \<open>None\<close>.  The walk is a loop that is left only through its end
  test, so its result is an option: \<open>None\<close> stands for a walk that does not return.
\<close>

type_synonym crossing_time = "real option"

definition time_le :: "crossing_time \<Rightarrow> crossing_time \<Rightarrow> bool" where
  "time_le s t = (case t of None \<Rightarrow> True | Some y \<Rightarrow> (case s of None \<Rightarrow> False | Some x \<Rightarrow> x \<le> y))"

definition time_add :: "crossing_time \<Rightarrow> crossing_time \<Rightarrow> crossing_time" where
  "time_add s t = (case s of None \<Rightarrow> None | Some x \<Rightarrow> (case t of None \<Rightarrow> None | Some y \<Rightarrow> Some (x + y)))"

fun nextAxis :: "crossing_time \<times> crossing_time \<times> crossing_time \<Rightarrow> Axis" where
  "nextAxis (tx, ty, tz) =
     (if time_le tx ty \<and> time_le tx tz then AxisX
      else if time_le ty tz then AxisY
      else AxisZ)"

definition axisStep :: "real \<Rightarrow> int" where
  "axisStep d = (if 0 < d then 1 else if d < 0 then - 1 else 0)"

text \<open>
  The time, as a fraction of the segment, at which the segment leaves the voxel of index
  \<open>g\<close> along one axis: through the upper face when it travels upwards, through the lower
  face when it travels downwards.
\<close>

definition axisTimeMax :: "real \<Rightarrow> real \<Rightarrow> real \<Rightarrow> real \<Rightarrow> int \<Rightarrow> crossing_time" where
  "axisTimeMax origin_a res start_a d g =
     (if d = 0 then None
      else if 0 < d then Some ((origin_a + of_int (g + 1) * res - start_a) / d)
      else Some ((origin_a + of_int g * res - start_a) / d))"

definition axisTimeDelta :: "real \<Rightarrow> real \<Rightarrow> crossing_time" where
  "axisTimeDelta res d = (if d = 0 then None else Some (res / \<bar>d\<bar>))"

record WalkState =
  current :: Key
  time_max :: "crossing_time \<times> crossing_time \<times> crossing_time"
  walked :: "Key list"

definition walkStep ::
  "OccupancyMapDetail \<Rightarrow> int \<times> int \<times> int \<Rightarrow> crossing_time \<times> crossing_time \<times> crossing_time \<Rightarrow>
   WalkState \<Rightarrow> WalkState" where
  "walkStep omap step time_delta s =
     (let a = nextAxis (time_max s);
          next_key = stepKey omap (current s) a (axis_get a step)
      in \<lparr>current = next_key,
          time_max = axis_set a (time_add (axis_get a (time_max s)) (axis_get a time_delta)) (time_max s),
          walked = walked s @ [next_key]\<rparr>)"

partial_function (option) walkLoop ::
  "OccupancyMapDetail \<Rightarrow> Key \<Rightarrow> int \<times> int \<times> int \<Rightarrow>
   crossing_time \<times> crossing_time \<times> crossing_time \<Rightarrow> WalkState \<Rightarrow> Key list option" where
  "walkLoop omap end_key step time_delta s =
     (if current s = end_key then Some (walked s)
      else walkLoop omap end_key step time_delta (walkStep omap step time_delta s))"

fun walkStart :: "dvec3 \<Rightarrow> real \<Rightarrow> dvec3 \<Rightarrow> dvec3 \<Rightarrow>
    (int \<times> int \<times> int) \<times> (crossing_time \<times> crossing_time \<times> crossing_time)
      \<times> (crossing_time \<times> crossing_time \<times> crossing_time)" where
  "walkStart (ox, oy, oz) res (sx, sy, sz) (ex, ey, ez) =
     ((axisStep (ex - sx), axisStep (ey - sy), axisStep (ez - sz)),
      (axisTimeDelta res (ex - sx), axisTimeDelta res (ey - sy), axisTimeDelta res (ez - sz)),
      (axisTimeMax ox res sx (ex - sx) (pointToVoxel ox res sx),
       axisTimeMax oy res sy (ey - sy) (pointToVoxel oy res sy),
       axisTimeMax oz res sz (ez - sz) (pointToVoxel oz res sz)))"

definition calculateSegmentKeys ::
  "OccupancyMapDetail \<Rightarrow> dvec3 \<Rightarrow> dvec3 \<Rightarrow> bool \<Rightarrow> Key list option" where
  "calculateSegmentKeys omap start_point end_point include_end_point =
     (case walkStart (origin omap) (resolution omap) start_point end_point of
        (step, time_delta, time_max0) \<Rightarrow>
          (case walkLoop omap (voxelKey omap end_point) step time_delta
                  \<lparr>current = voxelKey omap start_point, time_max = time_max0,
                   walked = [voxelKey omap start_point]\<rparr> of
             None \<Rightarrow> None
           | Some ks \<Rightarrow> Some (if include_end_point then ks else butlast ks)))"

section \<open>Ray integration\<close>

text \<open>
  Modelled from the spec: \<^verbatim>\<open>OccupancyMap::integrateRays\<close> and the voxel updates it
  applies (called by \<^verbatim>\<open>ClearingPattern::apply\<close>, implemented outside the sources).
  A voxel in a region without a chunk reads as unobserved; a write creates the chunk,
  filled with the unobserved value.
\<close>

definition voxelValue :: "OccupancyMapDetail \<Rightarrow> Key \<Rightarrow> real option" where
  "voxelValue omap k =
     (case chunks omap (regionKey k) of None \<Rightarrow> None | Some chunk \<Rightarrow> chunk (localKey k))"

definition setVoxelValue :: "OccupancyMapDetail \<Rightarrow> Key \<Rightarrow> real \<Rightarrow> OccupancyMapDetail" where
  "setVoxelValue omap k v =
     (let chunk = (case chunks omap (regionKey k) of None \<Rightarrow> (\<lambda>l. None) | Some c \<Rightarrow> c)
      in omap\<lparr>chunks := (chunks omap)(regionKey k \<mapsto> chunk(localKey k := Some v))\<rparr>)"

definition clamp :: "real \<Rightarrow> real \<Rightarrow> real \<Rightarrow> real" where
  "clamp x lo hi = min (max x lo) hi"

definition isOccupied :: "OccupancyMapDetail \<Rightarrow> real option \<Rightarrow> bool" where
  "isOccupied omap v = (case v of None \<Rightarrow> False | Some x \<Rightarrow> occupancy_threshold_value omap \<le> x)"

text \<open>
  The update rule: the value, read as 0 when unobserved and raised to the minimum, plus
  the adjustment, clamped to the minimum and maximum of the map.
\<close>

definition adjustedValue :: "OccupancyMapDetail \<Rightarrow> real \<Rightarrow> real option \<Rightarrow> real" where
  "adjustedValue omap delta v =
     clamp (max (min_voxel_value omap) (case v of None \<Rightarrow> 0 | Some x \<Rightarrow> x) + delta)
       (min_voxel_value omap) (max_voxel_value omap)"

text \<open>With \<open>kRfExcludeUnobserved\<close> an unobserved voxel is left alone.\<close>

definition integrateAdjust :: "OccupancyMapDetail \<Rightarrow> 32 word \<Rightarrow> real \<Rightarrow> Key \<Rightarrow> OccupancyMapDetail" where
  "integrateAdjust omap flags delta k =
     (if voxelValue omap k = None \<and> flags AND kRfExcludeUnobserved \<noteq> 0 then omap
      else setVoxelValue omap k (adjustedValue omap delta (voxelValue omap k)))"

definition integrateMiss :: "OccupancyMapDetail \<Rightarrow> 32 word \<Rightarrow> Key \<Rightarrow> OccupancyMapDetail" where
  "integrateMiss omap flags k = integrateAdjust omap flags (miss_value omap) k"

definition integrateHit :: "OccupancyMapDetail \<Rightarrow> 32 word \<Rightarrow> Key \<Rightarrow> OccupancyMapDetail" where
  "integrateHit omap flags k = integrateAdjust omap flags (hit_value omap) k"

text \<open>
  The voxels of a ray before its end point, in walk order.  The flag \<open>is_origin\<close>
  marks the first of them.  With \<open>kRfStopOnFirstOccupied\<close> the ray is abandoned at the
  first voxel that is already occupied, before that voxel is updated; the second
  component of the result tells whether this happened.  With \<open>kRfExcludeOrigin\<close> the
  origin voxel gets no miss.
\<close>

fun integrateTraversed ::
  "OccupancyMapDetail \<Rightarrow> 32 word \<Rightarrow> bool \<Rightarrow> Key list \<Rightarrow> OccupancyMapDetail \<times> bool" where
  "integrateTraversed omap flags is_origin [] = (omap, False)"
| "integrateTraversed omap flags is_origin (k # ks) =
     (if flags AND kRfStopOnFirstOccupied \<noteq> 0 \<and> isOccupied omap (voxelValue omap k)
      then (omap, True)
      else if is_origin \<and> flags AND kRfExcludeOrigin \<noteq> 0
      then integrateTraversed omap flags False ks
      else integrateTraversed (integrateMiss omap flags k) flags False ks)"

text \<open>
  The end point of a ray that was walked to its end: untouched with
  \<open>kRfExcludeSample\<close>, a miss with \<open>kRfEndPointAsFree\<close> or \<open>kRfClearOnly\<close>, a hit
  otherwise.
\<close>

definition integrateEndPoint :: "OccupancyMapDetail \<Rightarrow> 32 word \<Rightarrow> Key \<Rightarrow> OccupancyMapDetail" where
  "integrateEndPoint omap flags k =
     (if flags AND kRfExcludeSample \<noteq> 0 then omap
      else if flags AND (kRfEndPointAsFree OR kRfClearOnly) \<noteq> 0 then integrateMiss omap flags k
      else integrateHit omap flags k)"

definition integrateRay ::
  "OccupancyMapDetail \<Rightarrow> 32 word \<Rightarrow> dvec3 \<Rightarrow> dvec3 \<Rightarrow> OccupancyMapDetail option" where
  "integrateRay omap flags ray_origin end_point =
     (case calculateSegmentKeys omap ray_origin end_point False of
        None \<Rightarrow> None
      | Some ks \<Rightarrow>
          (case integrateTraversed omap flags True ks of
             (omap', stopped) \<Rightarrow>
               Some (if stopped then omap'
                     else integrateEndPoint omap' flags (voxelKey omap end_point))))"

fun integrateRays_loop ::
  "OccupancyMapDetail \<Rightarrow> 32 word \<Rightarrow> dvec3 list \<Rightarrow> OccupancyMapDetail option" where
  "integrateRays_loop omap flags (ray_origin # end_point # rays) =
     (case integrateRay omap flags ray_origin end_point of
        None \<Rightarrow> None
      | Some omap' \<Rightarrow> integrateRays_loop omap' flags rays)"
| "integrateRays_loop omap flags rays = Some omap"

text \<open>
  The errors of the integration.  An odd number of points is refused before anything is
  changed; otherwise the first \<open>element_count\<close> points are taken in pairs.  The outer
  option of the result is \<open>None\<close> when a walk does not return.
\<close>

datatype error = InvalidArgument

definition integrateRays ::
  "OccupancyMapDetail \<Rightarrow> dvec3 list \<Rightarrow> nat \<Rightarrow> 32 word \<Rightarrow> (error + OccupancyMapDetail) option" where
  "integrateRays omap rays element_count flags =
     (if odd element_count then Some (Inl InvalidArgument)
      else map_option Inr (integrateRays_loop omap flags (take element_count rays)))"

text \<open>A sequence of integration calls, each with its rays and flags; a refused call changes nothing.\<close>

fun integrateRaysSeq ::
  "OccupancyMapDetail \<Rightarrow> (dvec3 list \<times> 32 word) list \<Rightarrow> OccupancyMapDetail option" where
  "integrateRaysSeq omap [] = Some omap"
| "integrateRaysSeq omap ((rays, flags) # calls) =
     (case integrateRays omap rays (length rays) flags of
        None \<Rightarrow> None
      | Some (Inl e) \<Rightarrow> integrateRaysSeq omap calls
      | Some (Inr omap') \<Rightarrow> integrateRaysSeq omap' calls)"

text \<open>Every observed voxel value of the map lies between the minimum and the maximum.\<close>

definition values_clamped :: "OccupancyMapDetail \<Rightarrow> bool" where
  "values_clamped omap =
     (\<forall>k. case voxelValue omap k of
             None \<Rightarrow> True
           | Some v \<Rightarrow> min_voxel_value omap \<le> v \<and> v \<le> max_voxel_value omap)"

text \<open>
  Two maps with the same parameters, and the invariant of the clamping: the bounds are
  ordered and every observed value lies between them.
\<close>

definition same_parameters :: "OccupancyMapDetail \<Rightarrow> OccupancyMapDetail \<Rightarrow> bool" where
  "same_parameters a b =
     (min_voxel_value b = min_voxel_value a \<and> max_voxel_value b = max_voxel_value a
      \<and> miss_value b = miss_value a \<and> hit_value b = hit_value a
      \<and> occupancy_threshold_value b = occupancy_threshold_value a
      \<and> resolution b = resolution a \<and> origin b = origin a
      \<and> region_voxel_dimensions b = region_voxel_dimensions a)"

definition clamp_invariant :: "OccupancyMapDetail \<Rightarrow> bool" where
  "clamp_invariant omap = (min_voxel_value omap \<le> max_voxel_value omap \<and> values_clamped omap)"

section \<open>Line keys query (LineKeysQueryGpu.cpp)\<close>

text \<open>
  The detail of the query: the map it reads, the segments as a flat array of points (a
  start and an end per segment), the query flags, the per-segment results, the global
  key list, and the GPU side: whether the GPU is set up, whether a kernel is in flight,
  the number of key slots reserved per line, and the two device buffers.  The buffer
  \<^verbatim>\<open>linesOut\<close> is an array of slots of the size of a key (the source asserts that
  the GPU key and the key have the same size, and copies the slots into the key list);
  \<^verbatim>\<open>linePoints\<close> holds the points of the segments relative to the map origin.
\<close>

record LineKeysQueryDetailGpu =
  query_map :: OccupancyMapDetail
  rays :: "dvec3 list"
  query_flags :: "32 word"
  resultIndices :: "nat list"
  resultCounts :: "nat list"
  intersected_voxels :: "Key list"
  number_of_results :: nat
  gpuOk :: bool
  inflight :: bool
  maxKeysPerLine :: nat
  linesOut :: "Key list"
  linePoints :: "dvec3 list"

text \<open>
  The query flag \<^verbatim>\<open>kQfGpuEvaluate\<close> is declared outside the sources.  It is taken to
  be one bit of the query flags; only that it is not zero matters below.
\<close>

definition kQfGpuEvaluate :: "32 word" where
  "kQfGpuEvaluate = 4"

text \<open>\<^verbatim>\<open>std::vector::resize\<close>: the first \<open>n\<close> elements are kept, new ones are value-initialised.\<close>

definition resize :: "nat list \<Rightarrow> nat \<Rightarrow> nat list" where
  "resize xs n = take n xs @ replicate (n - length xs) 0"

subsection \<open>The GPU side of the host code\<close>

text \<open>
  What lies outside the sources is a parameter of the host code: \<open>gpu_available\<close>
  tells whether the GPU program and its kernel can be created, and the kernel
  \<^verbatim>\<open>calculateLines\<close> is a function of its arguments (the output buffer, the slots per
  line, the buffer of points, the number of lines, the region dimensions and the
  resolution) that yields its error code and the output buffer as it is once the queue
  has finished.
\<close>

type_synonym lines_kernel =
  "Key list \<Rightarrow> nat \<Rightarrow> dvec3 list \<Rightarrow> nat \<Rightarrow> int \<times> int \<times> int \<Rightarrow> real \<Rightarrow> int \<times> Key list"

text \<open>A slot of a new buffer; nothing reads it before the kernel has written the buffer.\<close>

definition blank_slot :: Key where
  "blank_slot = \<lparr>regionKey = (0, 0, 0), localKey = (0, 0, 0)\<rparr>"

text \<open>
  \<^verbatim>\<open>initialiseGpu\<close>: nothing to do when the GPU is set up already; otherwise the
  program and the kernel are created, which may fail, and the two buffers get a
  size of one element.
\<close>

definition initialiseGpu :: "bool \<Rightarrow> LineKeysQueryDetailGpu \<Rightarrow> bool \<times> LineKeysQueryDetailGpu" where
  "initialiseGpu gpu_available d =
     (if gpuOk d then (True, d)
      else if \<not> gpu_available then (False, d)
      else (True, d\<lparr>linesOut := [blank_slot], linePoints := [(0, 0, 0)], gpuOk := True\<rparr>))"

fun vsub :: "dvec3 \<Rightarrow> dvec3 \<Rightarrow> dvec3" where
  "vsub (ax, ay, az) (bx, by, bz) = (ax - bx, ay - by, az - bz)"

text \<open>\<^verbatim>\<open>glm::length\<close>.\<close>

fun vlength :: "dvec3 \<Rightarrow> real" where
  "vlength (x, y, z) = sqrt (x * x + y * y + z * z)"

text \<open>
  The first loop of \<^verbatim>\<open>lineKeysQueryGpu\<close>: the largest number of key slots a line can
  need, the length of the segment in voxels times \<^verbatim>\<open>pow(3.0, 0.5)\<close>, rounded up, plus
  one.  With an odd number of points the loop reads past the end of \<^verbatim>\<open>rays\<close>, which
  is \<open>None\<close>.
\<close>

fun maxKeys_loop :: "real \<Rightarrow> dvec3 list \<Rightarrow> nat \<Rightarrow> nat option" where
  "maxKeys_loop voxel_res (p0 # p1 # rs) m =
     maxKeys_loop voxel_res rs (max (nat (\<lceil>vlength (vsub p1 p0) / voxel_res * sqrt 3\<rceil> + 1)) m)"
| "maxKeys_loop voxel_res [p0] m = None"
| "maxKeys_loop voxel_res [] m = Some m"

text \<open>A device buffer is resized when it is smaller than required.\<close>

definition grow :: "'a list \<Rightarrow> nat \<Rightarrow> 'a \<Rightarrow> 'a list" where
  "grow buf n filler = (if length buf < n then buf @ replicate (n - length buf) filler else buf)"

fun region_dim_int3 :: "u8vec3 \<Rightarrow> int \<times> int \<times> int" where
  "region_dim_int3 (dx, dy, dz) = (uint dx, uint dy, uint dz)"

text \<open>
  \<^verbatim>\<open>lineKeysQueryGpu\<close>: sizes the buffers, uploads the points relative to the map
  origin, and invokes the kernel.  Buffer sizes are counted in elements; the rounding
  of the points and of the resolution to single precision is part of the kernel.  On an error of the kernel the result is false;
  otherwise the query is in flight.
\<close>

definition lineKeysQueryGpu ::
  "lines_kernel \<Rightarrow> LineKeysQueryDetailGpu \<Rightarrow> bool \<Rightarrow> (bool \<times> LineKeysQueryDetailGpu) option" where
  "lineKeysQueryGpu calculateLines d async =
     (case maxKeys_loop (resolution (query_map d)) (rays d) 1 of
        None \<Rightarrow> None
      | Some m \<Rightarrow>
          (let lines_out = grow (linesOut d) (length (rays d) div 2 * m) blank_slot;
               line_points = map (\<lambda>p. vsub p (origin (query_map d))) (rays d)
                               @ drop (length (rays d)) (linePoints d);
               launched = calculateLines lines_out m line_points (length (rays d) div 2)
                            (region_dim_int3 (region_voxel_dimensions (query_map d)))
                            (resolution (query_map d))
           in if fst launched \<noteq> 0
              then Some (False, d\<lparr>maxKeysPerLine := m, linesOut := lines_out,
                                   linePoints := line_points\<rparr>)
              else Some (True, d\<lparr>maxKeysPerLine := m, linesOut := snd launched,
                                  linePoints := line_points, inflight := True\<rparr>)))"

text \<open>
  \<^verbatim>\<open>readGpuResults\<close>.  The slots of line \<open>i\<close> start at \<open>i\<close> times the slots per line.
  The first two bytes of the first slot hold the number of keys of the line as a
  \<^verbatim>\<open>short\<close>; the layout of a key is declared outside the sources, and these bytes
  are taken to be the x region coordinate of the key stored in that slot.  The
  keys follow in the next slots and are copied to the end of the key list.  The growth
  of the capacity of the key list (\<^verbatim>\<open>nextPow2\<close>) does not change its content and is
  left out.  The result is \<open>None\<close> when a read lies outside the buffer or the result
  arrays, or when the count is negative.
\<close>

definition line_result_count :: "Key list \<Rightarrow> nat \<Rightarrow> int" where
  "line_result_count buf read_offset_count = sint (fst (regionKey (buf ! read_offset_count)))"

function readGpuResults_loop ::
  "LineKeysQueryDetailGpu \<Rightarrow> nat \<Rightarrow> nat \<Rightarrow> LineKeysQueryDetailGpu option" where
  "readGpuResults_loop d i read_offset_count =
     (if i < length (rays d) div 2 then
        (if read_offset_count < length (linesOut d)
            \<and> 0 \<le> line_result_count (linesOut d) read_offset_count
            \<and> read_offset_count + 1 + nat (line_result_count (linesOut d) read_offset_count)
                 \<le> length (linesOut d)
            \<and> i < length (resultIndices d) \<and> i < length (resultCounts d)
         then readGpuResults_loop
                (d\<lparr>resultIndices := (resultIndices d)[i := length (intersected_voxels d)],
                   resultCounts := (resultCounts d)
                     [i := nat (line_result_count (linesOut d) read_offset_count)],
                   intersected_voxels := intersected_voxels d
                     @ take (nat (line_result_count (linesOut d) read_offset_count))
                         (drop (read_offset_count + 1) (linesOut d))\<rparr>)
                (i + 1) (read_offset_count + maxKeysPerLine d)
         else None)
      else Some d)"
  by pat_completeness auto
termination
  by (relation "measure (\<lambda>(d, i, read_offset_count). length (rays d) div 2 - i)") auto

declare readGpuResults_loop.simps [simp del]

definition readGpuResults :: "LineKeysQueryDetailGpu \<Rightarrow> (bool \<times> LineKeysQueryDetailGpu) option" where
  "readGpuResults d =
     (case readGpuResults_loop
             (d\<lparr>resultIndices := resize (resultIndices d) (length (rays d) div 2),
                resultCounts := resize (resultCounts d) (length (rays d) div 2)\<rparr>) 0 0 of
        None \<Rightarrow> None
      | Some d' \<Rightarrow>
          Some (True, d'\<lparr>number_of_results := length (rays d) div 2, inflight := False\<rparr>))"

subsection \<open>Execution\<close>

text \<open>
  The last part of \<^verbatim>\<open>LineKeysQueryGpu::onExecute\<close>, which computes the keys on the
  CPU.  The parameter \<open>calc\<close> is the map's \<^verbatim>\<open>calculateSegmentKeys\<close>, a query of the
  map that yields the key list of a segment.  The result is \<open>None\<close> when the call
  yields no result: a walk does not return, or the loop indexes \<^verbatim>\<open>rays\<close> or the
  result arrays out of range, which the odd-length array makes it do.
\<close>

function onExecute_loop ::
  "(OccupancyMapDetail \<Rightarrow> dvec3 \<Rightarrow> dvec3 \<Rightarrow> bool \<Rightarrow> Key list option) \<Rightarrow>
   LineKeysQueryDetailGpu \<Rightarrow> nat \<Rightarrow> LineKeysQueryDetailGpu option" where
  "onExecute_loop calc d i =
     (if i < length (rays d) then
        (if i + 1 < length (rays d) \<and> i div 2 < length (resultIndices d)
            \<and> i div 2 < length (resultCounts d)
         then (case calc (query_map d) (rays d ! (i + 0)) (rays d ! (i + 1)) True of
                 None \<Rightarrow> None
               | Some key_list \<Rightarrow>
                   onExecute_loop calc
                     (d\<lparr>resultIndices := (resultIndices d)[i div 2 := length (intersected_voxels d)],
                        resultCounts := (resultCounts d)[i div 2 := length key_list],
                        intersected_voxels := intersected_voxels d @ key_list\<rparr>)
                     (i + 2))
         else None)
      else Some d)"
  by pat_completeness auto
termination
  by (relation "measure (\<lambda>(calc, d, i). length (rays d) - i)") auto

declare onExecute_loop.simps [simp del]

definition onExecute_fallback ::
  "(OccupancyMapDetail \<Rightarrow> dvec3 \<Rightarrow> dvec3 \<Rightarrow> bool \<Rightarrow> Key list option) \<Rightarrow>
   LineKeysQueryDetailGpu \<Rightarrow> (bool \<times> LineKeysQueryDetailGpu) option" where
  "onExecute_fallback calc d =
     (case onExecute_loop calc
             (d\<lparr>resultIndices := resize (resultIndices d) (length (rays d) div 2),
                resultCounts := resize (resultCounts d) (length (rays d) div 2)\<rparr>) 0 of
        None \<Rightarrow> None
      | Some d' \<Rightarrow> Some (True, d'\<lparr>number_of_results := length (resultIndices d')\<rparr>))"

text \<open>
  \<^verbatim>\<open>LineKeysQueryGpu::onExecute\<close>.  Without \<open>kQfGpuEvaluate\<close> among the query flags
  the call is handed to the base class, whose \<^verbatim>\<open>LineKeysQuery::onExecute\<close> lies
  outside the sources and is the parameter \<open>base_onExecute\<close>.  Otherwise the GPU is set
  up if need be; when it is ready the kernel is invoked, the queue is finished and the
  results are read; when it is not, the keys are computed on the CPU.
\<close>

definition onExecute ::
  "(LineKeysQueryDetailGpu \<Rightarrow> (bool \<times> LineKeysQueryDetailGpu) option) \<Rightarrow> bool \<Rightarrow> lines_kernel \<Rightarrow>
   (OccupancyMapDetail \<Rightarrow> dvec3 \<Rightarrow> dvec3 \<Rightarrow> bool \<Rightarrow> Key list option) \<Rightarrow>
   LineKeysQueryDetailGpu \<Rightarrow> (bool \<times> LineKeysQueryDetailGpu) option" where
  "onExecute base_onExecute gpu_available calculateLines calc d =
     (if query_flags d AND kQfGpuEvaluate = 0 then base_onExecute d
      else if gpuOk (snd (initialiseGpu gpu_available d))
      then (case lineKeysQueryGpu calculateLines (snd (initialiseGpu gpu_available d)) False of
              None \<Rightarrow> None
            | Some (ok, d') \<Rightarrow> if ok then readGpuResults d' else Some (False, d'))
      else onExecute_fallback calc (snd (initialiseGpu gpu_available d)))"

text \<open>\<^verbatim>\<open>LineKeysQueryGpu::onReset\<close> clears the per-segment results.\<close>

definition onReset :: "LineKeysQueryDetailGpu \<Rightarrow> bool \<Rightarrow> LineKeysQueryDetailGpu" where
  "onReset d hard_reset = d\<lparr>resultIndices := [], resultCounts := []\<rparr>"

subsection \<open>The layout of the results\<close>

text \<open>The key list that \<open>calc\<close> yields for the \<open>i\<close>-th segment of the query.\<close>

definition segment_keys ::
  "(OccupancyMapDetail \<Rightarrow> dvec3 \<Rightarrow> dvec3 \<Rightarrow> bool \<Rightarrow> Key list option) \<Rightarrow>
   LineKeysQueryDetailGpu \<Rightarrow> nat \<Rightarrow> Key list" where
  "segment_keys calc d i = the (calc (query_map d) (rays d ! (2 * i)) (rays d ! (2 * i + 1)) True)"

text \<open>
  The keys the kernel left for line \<open>i\<close> in a buffer with \<open>m\<close> slots per line, and the
  buffers the host code can read for \<open>n\<close> lines: the count of every line is there, is
  not negative, and its keys lie inside the buffer.
\<close>

definition gpu_line_keys :: "Key list \<Rightarrow> nat \<Rightarrow> nat \<Rightarrow> Key list" where
  "gpu_line_keys buf m i = take (nat (line_result_count buf (i * m))) (drop (i * m + 1) buf)"

definition gpu_lines_readable :: "Key list \<Rightarrow> nat \<Rightarrow> nat \<Rightarrow> bool" where
  "gpu_lines_readable buf m n =
     (\<forall>i < n. i * m < length buf \<and> 0 \<le> line_result_count buf (i * m)
              \<and> i * m + 1 + nat (line_result_count buf (i * m)) \<le> length buf)"

text \<open>
  The results \<open>d'\<close> of executing a query of \<open>n\<close> segments from the detail \<open>d\<close>, when
  \<open>seg i\<close> are the keys of segment \<open>i\<close>: there are \<open>n\<close> start indices and \<open>n\<close> counts;
  the count of a segment is the number of its keys; its start index is the length of
  the key list at the start plus the counts of the segments before it; and the key
  list is the key list at the start followed by the keys of the segments in order.
\<close>

definition results_layout ::
  "nat \<Rightarrow> (nat \<Rightarrow> Key list) \<Rightarrow> LineKeysQueryDetailGpu \<Rightarrow> LineKeysQueryDetailGpu \<Rightarrow> bool" where
  "results_layout n seg d d' =
     (length (resultIndices d') = n \<and> length (resultCounts d') = n
      \<and> number_of_results d' = n
      \<and> (\<forall>i < n. resultCounts d' ! i = length (seg i)
                 \<and> resultIndices d' ! i =
                     length (intersected_voxels d) + sum_list (take i (resultCounts d')))
      \<and> intersected_voxels d' = intersected_voxels d @ concat (map seg [0..<n]))"

subsection \<open>Waiting for an asynchronous query\<close>

text \<open>
  \<^verbatim>\<open>LineKeysQueryGpu::onWaitAsync\<close> polls the \<^verbatim>\<open>inflight\<close> flag of the detail, which
  it shares with whatever completes the query.  The world around the waiting thread is
  given by two functions: \<open>env t\<close> is what happens to the detail while the thread sleeps
  for the \<open>t\<close>-th time, and \<open>now t\<close> is the reading of the system clock in milliseconds
  after \<open>t\<close> sleeps (\<open>now 0\<close> is the start time).  The loop yields the detail and the
  number of sleeps at its exit; \<open>None\<close> stands for a loop that never exits.  The timeout
  \<^verbatim>\<open>~0u\<close> waits without a limit.
\<close>

partial_function (option) onWaitAsync_loop ::
  "(nat \<Rightarrow> LineKeysQueryDetailGpu \<Rightarrow> LineKeysQueryDetailGpu) \<Rightarrow> (nat \<Rightarrow> real) \<Rightarrow> 32 word \<Rightarrow>
   nat \<Rightarrow> LineKeysQueryDetailGpu \<Rightarrow> (LineKeysQueryDetailGpu \<times> nat) option" where
  "onWaitAsync_loop env now timeout_ms t d =
     (if inflight d then
        (if timeout_ms \<noteq> NOT 0 \<and> real (unat timeout_ms) \<le> now (Suc t) - now 0
         then Some (env t d, Suc t)
         else onWaitAsync_loop env now timeout_ms (Suc t) (env t d))
      else Some (d, t))"

definition onWaitAsync ::
  "(nat \<Rightarrow> LineKeysQueryDetailGpu \<Rightarrow> LineKeysQueryDetailGpu) \<Rightarrow> (nat \<Rightarrow> real) \<Rightarrow>
   LineKeysQueryDetailGpu \<Rightarrow> 32 word \<Rightarrow> (bool \<times> LineKeysQueryDetailGpu \<times> nat) option" where
  "onWaitAsync env now d timeout_ms =
     (case onWaitAsync_loop env now timeout_ms 0 d of
        None \<Rightarrow> None
      | Some (d', t) \<Rightarrow> Some (\<not> inflight d', d', t))"

text \<open>The detail after the first \<open>n\<close> sleeps that follow sleep number \<open>t\<close>, left to the environment alone.\<close>

fun evolve :: "(nat \<Rightarrow> LineKeysQueryDetailGpu \<Rightarrow> LineKeysQueryDetailGpu) \<Rightarrow> nat \<Rightarrow> nat \<Rightarrow>
    LineKeysQueryDetailGpu \<Rightarrow> LineKeysQueryDetailGpu" where
  "evolve env t 0 d = d"
| "evolve env t (Suc n) d = evolve env (Suc t) n (env t d)"

section \<open>Concrete inputs\<close>

text \<open>
  A map of resolution 1 with its origin at the world origin and regions of
  \<open>32 \<times> 32 \<times> 32\<close> voxels, holding no chunk, and a batch state with one region and one
  ray in the first buffer pair.
\<close>

definition unit_map :: OccupancyMapDetail where
  "unit_map = \<lparr>origin = (0, 0, 0), region_voxel_dimensions = (32, 32, 32), resolution = 1,
     occupancy_threshold_value = 0, hit_value = 1, miss_value = - (1 / 2),
     min_voxel_value = - 2, max_voxel_value = 4, chunks = Map.empty\<rparr>"

definition one_ray_batch :: GpuNdtMapDetail where
  "one_ray_batch = \<lparr>next_buffers_index = 0, region_counts = [1, 0], ray_counts = [1, 0],
     gpu_queue = []\<rparr>"

text \<open>A map of resolution \<open>1/4\<close> with regions of \<open>32 \<times> 32 \<times> 32\<close> voxels and no chunk.\<close>

definition quarter_map :: OccupancyMapDetail where
  "quarter_map = \<lparr>origin = (0, 0, 0), region_voxel_dimensions = (32, 32, 32),
     resolution = 1 / 4, occupancy_threshold_value = 0, hit_value = 1, miss_value = - (1 / 2),
     min_voxel_value = - 2, max_voxel_value = 4, chunks = Map.empty\<rparr>"

text \<open>
  The map of the clearing scenario: the unit map with one chunk, at region \<open>(0, 0, 0)\<close>,
  in which the voxels \<open>(2, 0, 0)\<close> and \<open>(4, 0, 0)\<close> hold the value 1 (occupied, the
  threshold being 0) and every other voxel is unobserved; and a clearing pattern with
  the single offset \<open>(5, 0, 0)\<close>.
\<close>

definition scenario_map :: OccupancyMapDetail where
  "scenario_map = unit_map\<lparr>chunks :=
     [(0, 0, 0) \<mapsto> (\<lambda>l. None)((2, 0, 0) := Some 1, (4, 0, 0) := Some 1)]\<rparr>"

definition scenario_pattern :: ClearingPatternDetail where
  "scenario_pattern = \<lparr>pattern = \<lparr>points = [(5, 0, 0)]\<rparr>, has_pattern_ownership = False,
     ray_set = []\<rparr>"

text \<open>
  A query of two segments from the origin, to \<open>(3, 0, 0)\<close> and to \<open>(0, 2, 0)\<close>, on the
  scenario map, asking for GPU evaluation, with no results yet and the GPU not set up;
  the same query in flight; an environment that
  completes a query during the third sleep of a waiting thread; and a clock that
  advances 10 milliseconds per sleep.
\<close>

definition two_segment_query :: LineKeysQueryDetailGpu where
  "two_segment_query = \<lparr>query_map = scenario_map,
     rays = [(0, 0, 0), (3, 0, 0), (0, 0, 0), (0, 2, 0)], query_flags = kQfGpuEvaluate,
     resultIndices = [], resultCounts = [], intersected_voxels = [],
     number_of_results = 0, gpuOk = False, inflight = False,
     maxKeysPerLine = 0, linesOut = [], linePoints = []\<rparr>"

definition pending_query :: LineKeysQueryDetailGpu where
  "pending_query = two_segment_query\<lparr>gpuOk := True, inflight := True\<rparr>"

definition completes_in_third_sleep ::
  "nat \<Rightarrow> LineKeysQueryDetailGpu \<Rightarrow> LineKeysQueryDetailGpu" where
  "completes_in_third_sleep t d = (if t = 2 then d\<lparr>inflight := False\<rparr> else d)"

definition clock_10ms :: "nat \<Rightarrow> real" where
  "clock_10ms t = 10 * real t"

text \<open>
  An environment in which nothing completes the query, and a clock that advances
  \<open>2\<^sup>3\<^sup>2\<close> milliseconds per sleep.
\<close>

definition never_completes :: "nat \<Rightarrow> LineKeysQueryDetailGpu \<Rightarrow> LineKeysQueryDetailGpu" where
  "never_completes t d = d"

definition clock_2p32ms :: "nat \<Rightarrow> real" where
  "clock_2p32ms t = 4294967296 * real t"

text \<open>
  The two-segment query after one execution on the CPU and after a second one that
  follows a reset; a base class that is never reached; and a kernel that writes, with
  \<open>m\<close> slots per line, the four keys of the first segment and the three keys of the
  second, each line led by the slot with its count.
\<close>

definition segment_x_keys :: "Key list" where
  "segment_x_keys = [local_key 0 0 0, local_key 1 0 0, local_key 2 0 0, local_key 3 0 0]"

definition segment_y_keys :: "Key list" where
  "segment_y_keys = [local_key 0 0 0, local_key 0 1 0, local_key 0 2 0]"

definition executed_query :: LineKeysQueryDetailGpu where
  "executed_query = two_segment_query\<lparr>resultIndices := [0, 4], resultCounts := [4, 3],
     intersected_voxels := segment_x_keys @ segment_y_keys, number_of_results := 2\<rparr>"

definition executed_twice :: LineKeysQueryDetailGpu where
  "executed_twice = two_segment_query\<lparr>resultIndices := [7, 11], resultCounts := [4, 3],
     intersected_voxels := segment_x_keys @ segment_y_keys @ segment_x_keys @ segment_y_keys,
     number_of_results := 2\<rparr>"

definition unreached_base ::
  "LineKeysQueryDetailGpu \<Rightarrow> (bool \<times> LineKeysQueryDetailGpu) option" where
  "unreached_base d = None"

definition count_slot :: "16 word \<Rightarrow> Key" where
  "count_slot c = \<lparr>regionKey = (c, 0, 0), localKey = (0, 0, 0)\<rparr>"

definition two_segment_kernel :: lines_kernel where
  "two_segment_kernel lines_out m line_points n region_dim res =
     (0, count_slot 4 # segment_x_keys @ replicate (m - 5) blank_slot
         @ count_slot 3 # segment_y_keys @ replicate (m - 4) blank_slot)"


chapter \<open>Properties\<close>

section \<open>Properties of the region lookup\<close>

lemma findRegion_loop_props:
  "i \<le> length xs \<Longrightarrow> findRegion_loop xs h k i = r \<Longrightarrow>
     i \<le> r \<and> r \<le> length xs \<and> (\<forall>j. i \<le> j \<and> j < r \<longrightarrow> fst (xs ! j) = h \<and> snd (xs ! j) \<noteq> k)
     \<and> (r < length xs \<longrightarrow> \<not> (fst (xs ! r) = h \<and> snd (xs ! r) \<noteq> k))"
proof (induction xs h k i rule: findRegion_loop.induct)
  case (1 regions region_hash region_key iter)
  show ?case
  proof (cases "iter < length regions \<and> fst (regions ! iter) = region_hash \<and> snd (regions ! iter) \<noteq> region_key")
    case True
    then have eq: "findRegion_loop regions region_hash region_key (Suc iter) = r"
      using "1.prems"(2) by (subst (asm) findRegion_loop.simps) simp
    have "Suc iter \<le> length regions" using True by simp
    from "1.IH"[OF _ this eq] True
    have IH: "Suc iter \<le> r \<and> r \<le> length regions \<and>
      (\<forall>j. Suc iter \<le> j \<and> j < r \<longrightarrow> fst (regions ! j) = region_hash \<and> snd (regions ! j) \<noteq> region_key) \<and>
      (r < length regions \<longrightarrow> \<not> (fst (regions ! r) = region_hash \<and> snd (regions ! r) \<noteq> region_key))"
      by simp
    show ?thesis
    proof (intro conjI allI impI)
      fix j assume "iter \<le> j \<and> j < r"
      then show "fst (regions ! j) = region_hash" using IH True by (cases "j = iter") auto
    next
      fix j assume "iter \<le> j \<and> j < r"
      then show "snd (regions ! j) \<noteq> region_key" using IH True by (cases "j = iter") auto
    qed (use IH in auto)
  next
    case False
    then have "r = iter" using "1.prems"(2) by (subst (asm) findRegion_loop.simps) auto
    then show ?thesis using False "1.prems"(1) by auto
  qed
qed

lemma grouped_keys_interval:
  "grouped_keys ks \<Longrightarrow> i \<le> l \<Longrightarrow> l \<le> j \<Longrightarrow> j < length ks \<Longrightarrow> ks ! i = ks ! j \<Longrightarrow> ks ! l = ks ! i"
proof (induction ks arbitrary: i l j rule: grouped_keys.induct)
  case 1
  then show ?case by simp
next
  case (2 h)
  then show ?case by simp
next
  case (3 h h' hs)
  have g: "grouped_keys (h' # hs)" using "3.prems"(1) by simp
  show ?case
  proof (cases l)
    case 0
    then show ?thesis using "3.prems" by simp
  next
    case (Suc l')
    then obtain j' where j: "j = Suc j'" using "3.prems"(3) by (cases j) auto
    show ?thesis
    proof (cases i)
      case (Suc i')
      then show ?thesis
        using "3.IH"[OF g, of i' l' j'] "3.prems" \<open>l = Suc l'\<close> j by simp
    next
      case 0
      have "h = (h' # hs) ! j'" using "3.prems"(5) 0 j by simp
      moreover have "j' < length (h' # hs)" using "3.prems"(4) j by simp
      ultimately have "h \<in> set (h' # hs)" using nth_mem by metis
      then have hh: "h = h'" using "3.prems"(1) by auto
      have "(h' # hs) ! 0 = (h' # hs) ! j'" using \<open>h = (h' # hs) ! j'\<close> hh by simp
      from "3.IH"[OF g _ _ _ this, of l'] "3.prems" \<open>l = Suc l'\<close> j
      have "(h' # hs) ! l' = (h' # hs) ! 0" by simp
      then show ?thesis using 0 \<open>l = Suc l'\<close> hh by simp
    qed
  qed
qed

lemma grouped_interval:
  "grouped xs \<Longrightarrow> i \<le> l \<Longrightarrow> l \<le> j \<Longrightarrow> j < length xs \<Longrightarrow> fst (xs ! i) = fst (xs ! j) \<Longrightarrow> fst (xs ! l) = fst (xs ! i)"
  using grouped_keys_interval[of "map fst xs" i l j] by (simp add: grouped_def)

lemma multimap_find_le: "multimap_find xs h \<le> length xs"
  by (simp add: multimap_find_def length_takeWhile_le)

lemma multimap_find_before: "j < multimap_find xs h \<Longrightarrow> fst (xs ! j) \<noteq> h"
proof -
  assume a: "j < multimap_find xs h"
  let ?P = "\<lambda>e. fst e \<noteq> h"
  have "takeWhile ?P xs ! j = xs ! j" using a by (simp add: multimap_find_def takeWhile_nth)
  moreover have "takeWhile ?P xs ! j \<in> set (takeWhile ?P xs)" using a by (simp add: multimap_find_def)
  ultimately show ?thesis using set_takeWhileD[of "xs ! j" ?P xs] by simp
qed

lemma multimap_find_at: "multimap_find xs h < length xs \<Longrightarrow> fst (xs ! multimap_find xs h) = h"
  using nth_length_takeWhile[of "\<lambda>e. fst e \<noteq> h" xs] by (simp add: multimap_find_def)

lemma findRegion_le: "findRegion xs h k \<le> length xs"
  by (simp add: findRegion_def Let_def)

lemma findRegion_sound:
  "findRegion xs h k < length xs \<Longrightarrow> xs ! findRegion xs h k = (h, k)"
  by (auto simp: findRegion_def Let_def prod_eq_iff split: if_splits)

lemma findRegion_complete:
  assumes g: "grouped xs" and m: "m < length xs" and e: "xs ! m = (h, k)"
  shows "findRegion xs h k < length xs"
proof -
  define i0 where "i0 = multimap_find xs h"
  define r where "r = findRegion_loop xs h k i0"
  have i0le: "i0 \<le> length xs" by (simp add: i0_def multimap_find_le)
  from findRegion_loop_props[OF i0le r_def[symmetric]]
  have r1: "i0 \<le> r" and r2: "r \<le> length xs"
    and r3: "\<And>j. i0 \<le> j \<Longrightarrow> j < r \<Longrightarrow> snd (xs ! j) \<noteq> k"
    and r4: "r < length xs \<Longrightarrow> \<not> (fst (xs ! r) = h \<and> snd (xs ! r) \<noteq> k)"
    by auto
  have i0m: "i0 \<le> m"
  proof (rule ccontr)
    assume "\<not> i0 \<le> m"
    then have "fst (xs ! m) \<noteq> h" using multimap_find_before[of m xs h] by (simp add: i0_def)
    then show False using e by simp
  qed
  have rm: "r \<le> m"
  proof (rule ccontr)
    assume "\<not> r \<le> m"
    then have "snd (xs ! m) \<noteq> k" using r3[OF i0m] by simp
    then show False using e by simp
  qed
  have rlt: "r < length xs" using rm m by simp
  have "i0 < length xs" using i0m m by simp
  then have "fst (xs ! i0) = h" using multimap_find_at[of xs h] by (simp add: i0_def)
  then have "fst (xs ! i0) = fst (xs ! m)" using e by simp
  from grouped_interval[OF g r1 rm m this] \<open>fst (xs ! i0) = h\<close>
  have "fst (xs ! r) = h" by simp
  with r4[OF rlt] have "snd (xs ! r) = k" by simp
  with \<open>fst (xs ! r) = h\<close> rlt show ?thesis
    by (simp add: findRegion_def Let_def i0_def[symmetric] r_def[symmetric])
qed

text \<open>
  Claim C10.  For a region multimap (entries of equal hash adjacent in iteration order),
  \<open>findRegion\<close> returns the position of an entry that carries both the hash and the
  region key asked for whenever such an entry exists, and \<^verbatim>\<open>end()\<close> otherwise.  An
  entry with the same hash but another region coordinate is never the result.
\<close>

theorem findRegion_correct:
  assumes "grouped regions"
  shows "((region_hash, region_key) \<in> set regions \<longrightarrow>
            findRegion regions region_hash region_key < length regions
            \<and> regions ! findRegion regions region_hash region_key = (region_hash, region_key))
       \<and> ((region_hash, region_key) \<notin> set regions \<longrightarrow>
            findRegion regions region_hash region_key = length regions)
       \<and> (\<forall>i < length regions.
            fst (regions ! i) = region_hash \<and> snd (regions ! i) \<noteq> region_key \<longrightarrow>
            findRegion regions region_hash region_key \<noteq> i)"
proof (intro conjI impI allI)
  assume "(region_hash, region_key) \<in> set regions"
  then obtain m where "m < length regions" "regions ! m = (region_hash, region_key)"
    by (auto simp: in_set_conv_nth)
  then show lt: "findRegion regions region_hash region_key < length regions"
    using findRegion_complete[OF assms] by blast
  show "regions ! findRegion regions region_hash region_key = (region_hash, region_key)"
    using findRegion_sound[OF lt] .
next
  assume notin: "(region_hash, region_key) \<notin> set regions"
  show "findRegion regions region_hash region_key = length regions"
  proof (rule ccontr)
    assume "findRegion regions region_hash region_key \<noteq> length regions"
    then have lt: "findRegion regions region_hash region_key < length regions"
      using findRegion_le[of regions region_hash region_key] by simp
    from findRegion_sound[OF lt] nth_mem[OF lt] notin show False by simp
  qed
next
  fix i
  assume "i < length regions"
    and c: "fst (regions ! i) = region_hash \<and> snd (regions ! i) \<noteq> region_key"
  show "findRegion regions region_hash region_key \<noteq> i"
  proof
    assume eq: "findRegion regions region_hash region_key = i"
    then have "regions ! i = (region_hash, region_key)"
      using findRegion_sound[of regions region_hash region_key] \<open>i < length regions\<close> by simp
    with c show False by simp
  qed
qed

theorem findRegion_correct_witness:
  "grouped [(7, (0, 0, 0)), (7, (1, 0, 0)), (9, (0, 0, 0))]
   \<and> findRegion [(7, (0, 0, 0)), (7, (1, 0, 0)), (9, (0, 0, 0))] 7 (1, 0, 0) = 1
   \<and> findRegion [(7, (0, 0, 0)), (7, (1, 0, 0)), (9, (0, 0, 0))] 7 (2, 0, 0) = 3"
  using findRegion_correct[of "[(7, (0, 0, 0)), (7, (1, 0, 0)), (9, (0, 0, 0))]" 7 "(1, 0, 0)"]
        findRegion_correct[of "[(7, (0, 0, 0)), (7, (1, 0, 0)), (9, (0, 0, 0))]" 7 "(2, 0, 0)"]
  by (simp add: grouped_def findRegion_def multimap_find_def findRegion_loop.simps)

section \<open>Properties of the batch finalisation\<close>

lemma finaliseBatch_queue:
  "gpu_queue (finaliseBatch omap imp flags) =
     gpu_queue imp @
       RegionRayUpdateNdt (region_counts imp ! next_buffers_index imp)
         (ray_counts imp ! next_buffers_index imp) (miss_value omap) (hit_value omap)
         (occupancy_threshold_value omap) (min_voxel_value omap) (max_voxel_value omap)
         (flags OR (if flags AND kRfEndPointAsFree = 0 then kRfExcludeSample else 0))
       # (if flags AND (kRfExcludeSample OR kRfEndPointAsFree) = 0
          then [NdtHit (region_counts imp ! next_buffers_index imp)
                  (ray_counts imp ! next_buffers_index imp) (hit_value omap)
                  (occupancy_threshold_value omap) (max_voxel_value omap)]
          else [])"
  by (simp add: finaliseBatch_def Let_def)

text \<open>
  Claim C1 as stated fails: \<^verbatim>\<open>finaliseBatch\<close> never consults \<open>kRfClearOnly\<close>.  With
  the flag set \<open>kRfClearOnly\<close> alone, the update kernel is told to leave the sample voxel
  out (\<open>kRfExcludeSample\<close> is added) and the hit kernel is enqueued after it, with the
  hit value.
\<close>

theorem finaliseBatch_ClearOnly_counterexample:
  "kRfClearOnly AND kRfClearOnly \<noteq> 0
   \<and> gpu_queue (finaliseBatch unit_map one_ray_batch kRfClearOnly) =
       [RegionRayUpdateNdt 1 1 (- (1 / 2)) 1 0 (- 2) 4 (kRfClearOnly OR kRfExcludeSample),
        NdtHit 1 1 1 0 4]
   \<and> list_ex is_NdtHit (gpu_queue (finaliseBatch unit_map one_ray_batch kRfClearOnly))"
  by (simp add: finaliseBatch_queue unit_map_def one_ray_batch_def RayFlag_defs)

text \<open>
  Claim C1, amended.  When the flags include \<open>kRfClearOnly\<close> together with
  \<open>kRfEndPointAsFree\<close> or \<open>kRfExcludeSample\<close>, the batch enqueues the update kernel
  alone: no hit kernel runs.  When \<open>kRfEndPointAsFree\<close> is among them (as in the flag
  set of the clearing pattern), the update kernel receives the caller's flags unchanged,
  so the sample voxel is handled as a free voxel of the ray.
\<close>

theorem finaliseBatch_ClearOnly_no_hit:
  assumes "flags AND kRfClearOnly \<noteq> 0"
    and "flags AND (kRfExcludeSample OR kRfEndPointAsFree) \<noteq> 0"
  shows "\<not> list_ex is_NdtHit (drop (length (gpu_queue imp)) (gpu_queue (finaliseBatch omap imp flags)))
       \<and> length (gpu_queue (finaliseBatch omap imp flags)) = Suc (length (gpu_queue imp))
       \<and> (flags AND kRfEndPointAsFree \<noteq> 0 \<longrightarrow>
            k_flags (last (gpu_queue (finaliseBatch omap imp flags))) = flags)"
  using assms by (simp add: finaliseBatch_queue)

theorem finaliseBatch_ClearOnly_no_hit_witness:
  "(kRfEndPointAsFree OR kRfStopOnFirstOccupied OR kRfClearOnly) AND kRfClearOnly \<noteq> 0
   \<and> (kRfEndPointAsFree OR kRfStopOnFirstOccupied OR kRfClearOnly)
        AND (kRfExcludeSample OR kRfEndPointAsFree) \<noteq> 0
   \<and> (kRfEndPointAsFree OR kRfStopOnFirstOccupied OR kRfClearOnly) AND kRfEndPointAsFree \<noteq> 0
   \<and> \<not> list_ex is_NdtHit (gpu_queue (finaliseBatch unit_map one_ray_batch
            (kRfEndPointAsFree OR kRfStopOnFirstOccupied OR kRfClearOnly)))
   \<and> k_flags (last (gpu_queue (finaliseBatch unit_map one_ray_batch
            (kRfEndPointAsFree OR kRfStopOnFirstOccupied OR kRfClearOnly)))) =
       kRfEndPointAsFree OR kRfStopOnFirstOccupied OR kRfClearOnly"
  using finaliseBatch_ClearOnly_no_hit[of "kRfEndPointAsFree OR kRfStopOnFirstOccupied OR kRfClearOnly"
          one_ray_batch unit_map]
  by (simp add: RayFlag_defs one_ray_batch_def)

section \<open>Properties of ray patterns and clearing patterns\<close>

lemma buildRays_loop_append:
  "buildRays_loop ps position rotation scaling rs =
     rs @ concat (map (\<lambda>p. [position, vadd position (vscale scaling (quat_rotate rotation p))]) ps)"
  by (induction ps arbitrary: rs) simp_all

lemma length_concat_pairs: "length (concat (map (\<lambda>p. [a, f p]) ps)) = 2 * length ps"
  by (induction ps) simp_all

lemma nth_concat_pairs:
  "i < length ps \<Longrightarrow>
     concat (map (\<lambda>p. [a, f p]) ps) ! (2 * i) = a
     \<and> concat (map (\<lambda>p. [a, f p]) ps) ! (2 * i + 1) = f (ps ! i)"
proof (induction ps arbitrary: i)
  case Nil
  then show ?case by simp
next
  case (Cons p ps)
  show ?case
  proof (cases i)
    case 0
    then show ?thesis by simp
  next
    case (Suc j)
    then have "j < length ps" using Cons.prems by simp
    from Cons.IH[OF this] Suc show ?thesis by simp
  qed
qed

lemma buildRays_rays:
  "fst (buildRays pat rs position rotation scaling) =
     concat (map (\<lambda>p. [position, vadd position (vscale scaling (quat_rotate rotation p))]) (points pat))"
  by (simp add: buildRays_def Let_def buildRays_loop_append)

lemma quat_rotate_identity: "quat_rotate quat_identity v = v"
  by (cases v) (simp add: quat_rotate_def quat_identity_def Let_def)

lemma vscale_one: "vscale 1 v = v"
  by (cases v) simp

lemma vadd_zero: "vadd (0, 0, 0) v = v"
  by (cases v) simp

text \<open>
  Claim C4.  \<open>buildRays\<close> yields \<open>2 \<times> pointCount\<close> points (and reports that number);
  every even entry is \<open>position\<close>, the odd entry after it is \<open>position\<close> plus the
  scaled, rotated offset.  With the identity rotation, scaling 1 and position 0 the odd
  entries are the stored offsets.
\<close>

theorem buildRays_layout:
  "length (fst (buildRays pat rs position rotation scaling)) = 2 * pointCount pat
   \<and> snd (buildRays pat rs position rotation scaling) = 2 * pointCount pat
   \<and> (\<forall>i < pointCount pat.
        fst (buildRays pat rs position rotation scaling) ! (2 * i) = position
        \<and> fst (buildRays pat rs position rotation scaling) ! (2 * i + 1) =
            vadd position (vscale scaling (quat_rotate rotation (points pat ! i))))
   \<and> (\<forall>i < pointCount pat.
        fst (buildRays pat rs (0, 0, 0) quat_identity 1) ! (2 * i + 1) = points pat ! i)"
proof (intro conjI allI impI)
  show "length (fst (buildRays pat rs position rotation scaling)) = 2 * pointCount pat"
    by (simp add: buildRays_rays length_concat_pairs pointCount_def)
  then show "snd (buildRays pat rs position rotation scaling) = 2 * pointCount pat"
    by (simp add: buildRays_def Let_def)
next
  fix i assume "i < pointCount pat"
  then have i: "i < length (points pat)" by (simp add: pointCount_def)
  note n = nth_concat_pairs[OF i, where a = position
      and f = "\<lambda>p. vadd position (vscale scaling (quat_rotate rotation p))"]
  show "fst (buildRays pat rs position rotation scaling) ! (2 * i) = position"
    using n by (simp add: buildRays_rays)
  show "fst (buildRays pat rs position rotation scaling) ! (2 * i + 1) =
          vadd position (vscale scaling (quat_rotate rotation (points pat ! i)))"
    using n by (simp add: buildRays_rays)
next
  fix i assume "i < pointCount pat"
  then have i: "i < length (points pat)" by (simp add: pointCount_def)
  have "fst (buildRays pat rs (0, 0, 0) quat_identity 1) ! (2 * i + 1) =
          vadd (0, 0, 0) (vscale 1 (quat_rotate quat_identity (points pat ! i)))"
    using nth_concat_pairs[OF i, where a = "(0, 0, 0)"
        and f = "\<lambda>p. vadd (0, 0, 0) (vscale 1 (quat_rotate quat_identity p))"]
    by (simp add: buildRays_rays)
  then show "fst (buildRays pat rs (0, 0, 0) quat_identity 1) ! (2 * i + 1) = points pat ! i"
    by (simp only: quat_rotate_identity vscale_one vadd_zero)
qed

theorem buildRays_layout_witness:
  "fst (buildRays \<lparr>points = [(5, 0, 0), (0, 2, 0)]\<rparr> [(9, 9, 9)] (1, 1, 1)
         \<lparr>qw = 0, qx = 0, qy = 0, qz = 1\<rparr> 2)
     = [(1, 1, 1), (- 9, 1, 1), (1, 1, 1), (1, - 3, 1)]
   \<and> fst (buildRays \<lparr>points = [(5, 0, 0), (0, 2, 0)]\<rparr> [(9, 9, 9)] (0, 0, 0) quat_identity 1) ! 3
     = (0, 2, 0)"
  using buildRays_layout[of "\<lparr>points = [(5, 0, 0), (0, 2, 0)]\<rparr>" "[(9, 9, 9)]" "(1, 1, 1)"
          "\<lparr>qw = 0, qx = 0, qy = 0, qz = 1\<rparr>" 2]
  by (simp add: buildRays_def quat_rotate_def quat_identity_def pointCount_def Let_def)

text \<open>
  Claim C5.  \<open>ClearingPattern_apply\<close> stores the ray set built from the wrapped pattern
  with the position, rotation and scaling it was given, and calls the integration once,
  on the map it was given, with that ray set, its length, and the flags
  \<open>kRfEndPointAsFree\<close>, \<open>kRfStopOnFirstOccupied\<close> and \<open>kRfClearOnly\<close> and no other bit.
\<close>

theorem ClearingPattern_apply_calls:
  "ClearingPattern_apply integrate imp omap position rotation scaling =
     (imp\<lparr>ray_set := fst (buildRays (pattern imp) (ray_set imp) position rotation scaling)\<rparr>,
      integrate omap (fst (buildRays (pattern imp) (ray_set imp) position rotation scaling))
        (2 * pointCount (pattern imp)) 7)
   \<and> (7 :: 32 word) = kRfEndPointAsFree OR kRfStopOnFirstOccupied OR kRfClearOnly
   \<and> (7 :: 32 word) AND (kRfExcludeOrigin OR kRfExcludeSample OR kRfExcludeUnobserved) = 0"
proof -
  have "length (fst (buildRays (pattern imp) (ray_set imp) position rotation scaling))
          = 2 * pointCount (pattern imp)"
    by (simp add: buildRays_rays length_concat_pairs pointCount_def)
  then show ?thesis
    by (simp add: ClearingPattern_apply_def Let_def RayFlag_defs)
qed

section \<open>Properties of the key arithmetic\<close>

lemma pointToVoxel_centre:
  "0 < res \<Longrightarrow> pointToVoxel o_a res (voxelCentreAxis o_a res g) = g"
proof -
  assume r: "0 < res"
  have "(voxelCentreAxis o_a res g - o_a) / res = of_int g + 1 / 2"
    using r by (simp add: voxelCentreAxis_def)
  then show ?thesis
    by (simp add: pointToVoxel_def floor_eq_iff)
qed

lemma voxelCentreAxis_near:
  assumes r: "0 < res"
  shows "\<bar>voxelCentreAxis o_a res (pointToVoxel o_a res p) - p\<bar> \<le> res / 2"
proof -
  define q where "q = (p - o_a) / res"
  define g where "g = \<lfloor>q\<rfloor>"
  have p: "p = o_a + q * res" using r by (simp add: q_def)
  have lo: "of_int g \<le> q" and hi: "q < of_int g + 1" by (simp_all add: g_def)
  have "voxelCentreAxis o_a res g - p = (of_int g + 1 / 2 - q) * res"
    by (simp add: voxelCentreAxis_def p algebra_simps)
  moreover have "\<bar>of_int g + 1 / 2 - q\<bar> \<le> 1 / 2" using lo hi by linarith
  ultimately have "\<bar>voxelCentreAxis o_a res g - p\<bar> \<le> 1 / 2 * res"
    using r by (simp add: abs_mult mult_right_mono)
  then show ?thesis by (simp add: pointToVoxel_def q_def g_def)
qed

lemma int_div_mod_compose:
  "0 \<le> (l::int) \<Longrightarrow> l < d \<Longrightarrow> (a * d + l) div d = a \<and> (a * d + l) mod d = l"
proof -
  assume l: "0 \<le> l" "l < d"
  then have d: "d \<noteq> 0" by simp
  have "(a * d + l) div d = a + l div d" using d by simp
  moreover have "l div d = 0" using l by (simp add: div_pos_pos_trivial)
  moreover have "(a * d + l) mod d = l mod d" by simp
  moreover have "l mod d = l" using l by (simp add: mod_pos_pos_trivial)
  ultimately show ?thesis by simp
qed

lemma voxelToKeyAxis_inverse:
  assumes d: "rdim \<noteq> 0" and l: "l < rdim"
  shows "voxelToKeyAxis rdim (keyToVoxelAxis rdim (r, l)) = (r, l)"
proof -
  have D: "0 < uint rdim" using d uint_0_iff[of rdim] uint_ge_0[of rdim] by linarith
  have L: "0 \<le> uint l" "uint l < uint rdim" using l by (simp_all add: word_less_def)
  from int_div_mod_compose[OF L, of "sint r"] show ?thesis
    by (simp add: voxelToKeyAxis_def keyToVoxelAxis_def)
qed

lemma keyToVoxelAxis_inverse:
  assumes d: "rdim \<noteq> 0" and rep: "region_representable rdim g"
  shows "keyToVoxelAxis rdim (voxelToKeyAxis rdim g) = g"
proof -
  have D: "0 < uint rdim" using d uint_0_iff[of rdim] uint_ge_0[of rdim] by linarith
  have D2: "uint rdim < 2 ^ 8" using uint_bounded[of rdim] by simp
  have m: "0 \<le> g mod uint rdim" "g mod uint rdim < uint rdim" using D by simp_all
  have "uint (word_of_int (g mod uint rdim) :: 8 word) = g mod uint rdim"
    using m D2 by (simp add: uint_word_of_int take_bit_int_eq_self)
  moreover have "sint (word_of_int (g div uint rdim) :: 16 word) = g div uint rdim"
    using rep by (simp add: region_representable_def sint_sbintrunc' signed_take_bit_int_eq_self)
  ultimately show ?thesis
    by (simp add: voxelToKeyAxis_def keyToVoxelAxis_def)
qed

text \<open>
  Claim C7.  On a grid of positive resolution with non-empty regions, the key of the
  centre of a voxel is the key of that voxel, for every valid key; and the centre of the
  voxel of a point inside the representable range is within half a resolution of the
  point on each axis.
\<close>

theorem key_round_trip:
  assumes grid: "valid_grid omap"
  shows "(validKey omap k \<longrightarrow> voxelKey omap (voxelCentre omap k) = k)
       \<and> (representable omap p \<longrightarrow>
            axis_distance_le (resolution omap / 2) (voxelCentre omap (voxelKey omap p)) p)"
proof -
  obtain ox oy oz where o: "origin omap = (ox, oy, oz)" by (cases "origin omap") auto
  obtain dx dy dz where d: "region_voxel_dimensions omap = (dx, dy, dz)"
    by (cases "region_voxel_dimensions omap") auto
  have res: "0 < resolution omap" and nz: "dx \<noteq> 0" "dy \<noteq> 0" "dz \<noteq> 0"
    using grid by (simp_all add: valid_grid_def d)
  have first: "voxelKey omap (voxelCentre omap k) = k" if v: "validKey omap k"
  proof -
    obtain rx ry rz where r: "regionKey k = (rx, ry, rz)" by (cases "regionKey k") auto
    obtain lx ly lz where l: "localKey k = (lx, ly, lz)" by (cases "localKey k") auto
    have lt: "lx < dx" "ly < dy" "lz < dz" using v by (simp_all add: validKey_def d l)
    have "voxelKey omap (voxelCentre omap k) = \<lparr>regionKey = (rx, ry, rz), localKey = (lx, ly, lz)\<rparr>"
      using res
      by (simp add: voxelKey_def voxelCentre_def keyToVoxel_def o d r l pointToVoxel_centre
            voxelToKeyAxis_inverse[OF nz(1) lt(1)] voxelToKeyAxis_inverse[OF nz(2) lt(2)]
            voxelToKeyAxis_inverse[OF nz(3) lt(3)])
    also have "\<dots> = k" using r l by simp
    finally show ?thesis .
  qed
  have second: "axis_distance_le (resolution omap / 2) (voxelCentre omap (voxelKey omap p)) p"
    if rp: "representable omap p"
  proof -
    obtain px py pz where p: "p = (px, py, pz)" by (cases p) auto
    have rep: "region_representable dx (pointToVoxel ox (resolution omap) px)"
      "region_representable dy (pointToVoxel oy (resolution omap) py)"
      "region_representable dz (pointToVoxel oz (resolution omap) pz)"
      using rp by (simp_all add: representable_def o d p)
    have k: "keyToVoxel (region_voxel_dimensions omap) (voxelKey omap p) =
               pointToVoxel3 (origin omap) (resolution omap) p"
      using keyToVoxelAxis_inverse[OF nz(1) rep(1)] keyToVoxelAxis_inverse[OF nz(2) rep(2)]
        keyToVoxelAxis_inverse[OF nz(3) rep(3)]
      by (simp add: voxelKey_def keyToVoxel_def o d p voxelToKeyAxis_def)
    show ?thesis
      using voxelCentreAxis_near[OF res, of ox px] voxelCentreAxis_near[OF res, of oy py]
        voxelCentreAxis_near[OF res, of oz pz]
      by (simp add: voxelCentre_def k[unfolded p] o p)
  qed
  from first second show ?thesis by blast
qed

theorem key_round_trip_witness:
  "valid_grid quarter_map
   \<and> validKey quarter_map \<lparr>regionKey = (- 1, 0, 2), localKey = (31, 0, 7)\<rparr>
   \<and> representable quarter_map (3 / 10, - (11 / 10), 100)
   \<and> voxelKey quarter_map (voxelCentre quarter_map \<lparr>regionKey = (- 1, 0, 2), localKey = (31, 0, 7)\<rparr>)
       = \<lparr>regionKey = (- 1, 0, 2), localKey = (31, 0, 7)\<rparr>
   \<and> axis_distance_le (1 / 8)
        (voxelCentre quarter_map (voxelKey quarter_map (3 / 10, - (11 / 10), 100)))
        (3 / 10, - (11 / 10), 100)"
  using key_round_trip[of quarter_map "\<lparr>regionKey = (- 1, 0, 2), localKey = (31, 0, 7)\<rparr>"
          "(3 / 10, - (11 / 10), 100)"]
  by (simp add: quarter_map_def valid_grid_def validKey_def representable_def
        region_representable_def pointToVoxel_def)

section \<open>Properties of the ray integration\<close>

text \<open>The equations that evaluate a walk and an integration on concrete rays.\<close>

lemmas walk_eval = calculateSegmentKeys_def voxelKey_def pointToVoxel_def voxelToKeyAxis_def
  axisStep_def axisTimeMax_def axisTimeDelta_def walkLoop.simps walkStep_def stepKey_def
  keyToVoxel_def keyToVoxelAxis_def time_le_def time_add_def Let_def

lemmas integrate_eval = integrateRays_def integrateRay_def integrateEndPoint_def
  integrateMiss_def integrateHit_def integrateAdjust_def adjustedValue_def clamp_def
  isOccupied_def voxelValue_def setVoxelValue_def RayFlag_defs

lemma voxelValue_setVoxelValue:
  "voxelValue (setVoxelValue omap k v) k' = (if k' = k then Some v else voxelValue omap k')"
  by (cases k; cases k') (auto simp: voxelValue_def setVoxelValue_def Let_def split: option.splits)

lemma setVoxelValue_params [simp]:
  "min_voxel_value (setVoxelValue omap k v) = min_voxel_value omap"
  "max_voxel_value (setVoxelValue omap k v) = max_voxel_value omap"
  "miss_value (setVoxelValue omap k v) = miss_value omap"
  "hit_value (setVoxelValue omap k v) = hit_value omap"
  "occupancy_threshold_value (setVoxelValue omap k v) = occupancy_threshold_value omap"
  "resolution (setVoxelValue omap k v) = resolution omap"
  "origin (setVoxelValue omap k v) = origin omap"
  "region_voxel_dimensions (setVoxelValue omap k v) = region_voxel_dimensions omap"
  by (simp_all add: setVoxelValue_def Let_def)

lemma adjustedValue_in_range:
  "min_voxel_value omap \<le> max_voxel_value omap \<Longrightarrow>
   min_voxel_value omap \<le> adjustedValue omap delta v \<and> adjustedValue omap delta v \<le> max_voxel_value omap"
  by (simp add: adjustedValue_def clamp_def)

lemma integrateAdjust_invariant:
  assumes "clamp_invariant omap"
  shows "clamp_invariant (integrateAdjust omap flags delta k) \<and> same_parameters omap (integrateAdjust omap flags delta k)"
proof (cases "voxelValue omap k = None \<and> flags AND kRfExcludeUnobserved \<noteq> 0")
  case True
  then show ?thesis using assms by (simp add: integrateAdjust_def same_parameters_def)
next
  case False
  have le: "min_voxel_value omap \<le> max_voxel_value omap" and vc: "values_clamped omap"
    using assms by (simp_all add: clamp_invariant_def)
  let ?v = "adjustedValue omap delta (voxelValue omap k)"
  have "values_clamped (setVoxelValue omap k ?v)"
    unfolding values_clamped_def
  proof
    fix k'
    show "case voxelValue (setVoxelValue omap k ?v) k' of None \<Rightarrow> True
          | Some v \<Rightarrow> min_voxel_value (setVoxelValue omap k ?v) \<le> v \<and> v \<le> max_voxel_value (setVoxelValue omap k ?v)"
    proof (cases "k' = k")
      case True
      then show ?thesis using adjustedValue_in_range[OF le, of delta "voxelValue omap k"]
        by (simp add: voxelValue_setVoxelValue)
    next
      case False
      then show ?thesis using vc[unfolded values_clamped_def, rule_format, of k']
        by (simp add: voxelValue_setVoxelValue split: option.splits)
    qed
  qed
  moreover have "integrateAdjust omap flags delta k = setVoxelValue omap k ?v"
    using False by (auto simp: integrateAdjust_def)
  ultimately show ?thesis using le
    by (simp add: clamp_invariant_def same_parameters_def)
qed

lemma same_parameters_refl: "same_parameters a a"
  by (simp add: same_parameters_def)

lemma same_parameters_trans: "same_parameters a b \<Longrightarrow> same_parameters b c \<Longrightarrow> same_parameters a c"
  by (simp add: same_parameters_def)

lemma integrateTraversed_invariant:
  "clamp_invariant omap \<Longrightarrow>
   clamp_invariant (fst (integrateTraversed omap flags is_origin ks))
   \<and> same_parameters omap (fst (integrateTraversed omap flags is_origin ks))"
proof (induction ks arbitrary: omap is_origin)
  case Nil
  then show ?case by (simp add: same_parameters_refl)
next
  case (Cons k ks)
  note step = integrateAdjust_invariant[OF Cons.prems, of flags "miss_value omap" k]
  show ?case
  proof (cases "flags AND kRfStopOnFirstOccupied \<noteq> 0 \<and> isOccupied omap (voxelValue omap k)")
    case True
    then show ?thesis using Cons.prems by (simp add: same_parameters_refl)
  next
    case nostop: False
    show ?thesis
    proof (cases "is_origin \<and> flags AND kRfExcludeOrigin \<noteq> 0")
      case True
      then show ?thesis using nostop Cons.IH[OF Cons.prems, of False] by auto
    next
      case False
      from step have ci: "clamp_invariant (integrateMiss omap flags k)"
        and sp: "same_parameters omap (integrateMiss omap flags k)"
        by (simp_all add: integrateMiss_def)
      from Cons.IH[OF ci, of False] sp False nostop show ?thesis
        by (auto intro: same_parameters_trans)
    qed
  qed
qed

lemma integrateEndPoint_invariant:
  "clamp_invariant omap \<Longrightarrow>
   clamp_invariant (integrateEndPoint omap flags k) \<and> same_parameters omap (integrateEndPoint omap flags k)"
  using integrateAdjust_invariant[of omap flags "miss_value omap" k]
    integrateAdjust_invariant[of omap flags "hit_value omap" k]
  by (simp add: integrateEndPoint_def integrateMiss_def integrateHit_def same_parameters_refl)

lemma integrateRay_invariant:
  assumes "clamp_invariant omap" "integrateRay omap flags a b = Some omap'"
  shows "clamp_invariant omap' \<and> same_parameters omap omap'"
proof -
  from assms(2) obtain ks where ks: "calculateSegmentKeys omap a b False = Some ks"
    by (auto simp: integrateRay_def split: option.splits)
  obtain m1 stopped where t: "integrateTraversed omap flags True ks = (m1, stopped)"
    by (cases "integrateTraversed omap flags True ks") auto
  from integrateTraversed_invariant[OF assms(1), of flags True ks] t
  have m1: "clamp_invariant m1" "same_parameters omap m1" by simp_all
  from assms(2) ks t have r: "omap' = (if stopped then m1 else integrateEndPoint m1 flags (voxelKey omap b))"
    by (simp add: integrateRay_def)
  show ?thesis
    using m1 integrateEndPoint_invariant[OF m1(1), of flags "voxelKey omap b"] r
    by (auto intro: same_parameters_trans)
qed

lemma integrateRays_loop_invariant:
  "clamp_invariant omap \<Longrightarrow> integrateRays_loop omap flags rs = Some omap' \<Longrightarrow>
   clamp_invariant omap' \<and> same_parameters omap omap'"
proof (induction omap flags rs rule: integrateRays_loop.induct)
  case (1 omap flags ray_origin end_point rs)
  from "1.prems"(2) obtain m1 where m1: "integrateRay omap flags ray_origin end_point = Some m1"
    and r: "integrateRays_loop m1 flags rs = Some omap'"
    by (auto split: option.splits)
  from integrateRay_invariant[OF "1.prems"(1) m1] have i1: "clamp_invariant m1" "same_parameters omap m1"
    by simp_all
  from "1.IH"[OF m1 i1(1) r] i1(2) show ?case by (auto intro: same_parameters_trans)
qed (simp_all add: same_parameters_refl)

lemma integrateRays_invariant:
  "clamp_invariant omap \<Longrightarrow> integrateRays omap rs n flags = Some (Inr omap') \<Longrightarrow>
   clamp_invariant omap' \<and> same_parameters omap omap'"
  using integrateRays_loop_invariant[of omap flags "take n rs" omap']
  by (auto simp: integrateRays_def split: if_splits)

lemma integrateRaysSeq_invariant:
  "clamp_invariant omap \<Longrightarrow> integrateRaysSeq omap calls = Some omap' \<Longrightarrow>
   clamp_invariant omap' \<and> same_parameters omap omap'"
proof (induction calls arbitrary: omap)
  case Nil
  then show ?case by (simp add: same_parameters_refl)
next
  case (Cons c calls)
  obtain rs flags where c: "c = (rs, flags)" by (cases c) auto
  show ?case
  proof (cases "integrateRays omap rs (length rs) flags")
    case None
    then show ?thesis using Cons.prems c by simp
  next
    case (Some r)
    show ?thesis
    proof (cases r)
      case (Inl e)
      then show ?thesis using Cons.prems c Some Cons.IH[of omap] by simp
    next
      case (Inr m1)
      from integrateRays_invariant[OF Cons.prems(1)] Some Inr
      have i1: "clamp_invariant m1" "same_parameters omap m1" by simp_all
      from Cons.prems(2) c Some Inr have "integrateRaysSeq m1 calls = Some omap'" by simp
      from Cons.IH[OF i1(1) this] i1(2) show ?thesis by (auto intro: same_parameters_trans)
    qed
  qed
qed

text \<open>
  Claim C2.  When the minimum of a map is at most its maximum and every observed voxel
  value lies between them, then after any sequence of integration calls, with any rs
  and any flags, every voxel value is unobserved or lies between the minimum and the
  maximum, which the calls leave as they were.
\<close>

theorem integrate_values_clamped:
  assumes "min_voxel_value omap \<le> max_voxel_value omap"
    and "values_clamped omap"
    and "integrateRaysSeq omap calls = Some omap'"
  shows "values_clamped omap'
       \<and> min_voxel_value omap' = min_voxel_value omap
       \<and> max_voxel_value omap' = max_voxel_value omap"
  using integrateRaysSeq_invariant[of omap calls omap'] assms
  by (simp add: clamp_invariant_def same_parameters_def)

theorem integrate_values_clamped_witness:
  "min_voxel_value unit_map \<le> max_voxel_value unit_map
   \<and> values_clamped unit_map
   \<and> (case integrateRaysSeq unit_map
             [([(0, 0, 0), (3, 0, 0)], 0), ([(0, 0, 0), (3, 0, 0)], 0),
              ([(0, 0, 0), (3, 0, 0)], 0), ([(0, 0, 0), (3, 0, 0)], 0),
              ([(0, 0, 0), (3, 0, 0)], kRfExcludeOrigin)] of
         None \<Rightarrow> False
       | Some omap' \<Rightarrow>
           values_clamped omap'
           \<and> voxelValue omap' \<lparr>regionKey = (0, 0, 0), localKey = (0, 0, 0)\<rparr> = Some (- 2)
           \<and> voxelValue omap' \<lparr>regionKey = (0, 0, 0), localKey = (1, 0, 0)\<rparr> = Some (- 2)
           \<and> voxelValue omap' \<lparr>regionKey = (0, 0, 0), localKey = (3, 0, 0)\<rparr> = Some 4)"
proof -
  let ?calls = "[([(0, 0, 0), (3, 0, 0)], 0), ([(0, 0, 0), (3, 0, 0)], 0),
              ([(0, 0, 0), (3, 0, 0)], 0), ([(0, 0, 0), (3, 0, 0)], 0),
              ([(0, 0, 0), (3, 0, 0)], kRfExcludeOrigin)] :: (dvec3 list \<times> 32 word) list"
  have h1: "min_voxel_value unit_map \<le> max_voxel_value unit_map"
    by (simp add: unit_map_def)
  have h2: "values_clamped unit_map"
    by (simp add: values_clamped_def voxelValue_def unit_map_def)
  have "integrateRaysSeq unit_map ?calls \<noteq> None"
    by (simp add: unit_map_def walk_eval integrate_eval)
  then obtain m where m: "integrateRaysSeq unit_map ?calls = Some m" by auto
  have v0: "voxelValue (the (integrateRaysSeq unit_map ?calls))
              \<lparr>regionKey = (0, 0, 0), localKey = (0, 0, 0)\<rparr> = Some (- 2)"
    by (simp add: unit_map_def walk_eval integrate_eval)
  have v1: "voxelValue (the (integrateRaysSeq unit_map ?calls))
              \<lparr>regionKey = (0, 0, 0), localKey = (1, 0, 0)\<rparr> = Some (- 2)"
    by (simp add: unit_map_def walk_eval integrate_eval)
  have v3: "voxelValue (the (integrateRaysSeq unit_map ?calls))
              \<lparr>regionKey = (0, 0, 0), localKey = (3, 0, 0)\<rparr> = Some 4"
    by (simp add: unit_map_def walk_eval integrate_eval)
  from integrate_values_clamped[OF h1 h2 m] v0 v1 v3 h1 h2 m show ?thesis by simp
qed

section \<open>Properties of the line keys query\<close>

lemma onExecute_loop_frame:
  "onExecute_loop calc d i = Some d' \<Longrightarrow>
     query_map d' = query_map d \<and> rays d' = rays d \<and> query_flags d' = query_flags d
     \<and> gpuOk d' = gpuOk d \<and> inflight d' = inflight d \<and> number_of_results d' = number_of_results d
     \<and> maxKeysPerLine d' = maxKeysPerLine d \<and> linesOut d' = linesOut d \<and> linePoints d' = linePoints d"
proof (induction calc d i rule: onExecute_loop.induct)
  case (1 calc d i)
  show ?case
  proof (cases "i < length (rays d)")
    case False
    then show ?thesis using "1.prems" by (subst (asm) onExecute_loop.simps) simp
  next
    case True
    from "1.prems" True obtain key_list where
      g: "i + 1 < length (rays d) \<and> i div 2 < length (resultIndices d) \<and> i div 2 < length (resultCounts d)"
      and c: "calc (query_map d) (rays d ! (i + 0)) (rays d ! (i + 1)) True = Some key_list"
      and r: "onExecute_loop calc
                     (d\<lparr>resultIndices := (resultIndices d)[i div 2 := length (intersected_voxels d)],
                        resultCounts := (resultCounts d)[i div 2 := length key_list],
                        intersected_voxels := intersected_voxels d @ key_list\<rparr>)
                     (i + 2) = Some d'"
      by (subst (asm) onExecute_loop.simps) (auto split: if_splits option.splits)
    from "1.IH"[OF True g c r] show ?thesis by simp
  qed
qed

lemma onExecute_loop_result:
  assumes len: "length (rays d0) = 2 * n"
    and calc: "\<forall>i < n. calc (query_map d0) (rays d0 ! (2 * i)) (rays d0 ! (2 * i + 1)) True \<noteq> None"
  shows "j \<le> n \<Longrightarrow> rays d = rays d0 \<Longrightarrow> query_map d = query_map d0 \<Longrightarrow>
     length (resultIndices d) = n \<Longrightarrow> length (resultCounts d) = n \<Longrightarrow>
     \<exists>d'. onExecute_loop calc d (2 * j) = Some d'
       \<and> length (resultIndices d') = n \<and> length (resultCounts d') = n
       \<and> (\<forall>i < j. resultIndices d' ! i = resultIndices d ! i \<and> resultCounts d' ! i = resultCounts d ! i)
       \<and> (\<forall>i. j \<le> i \<and> i < n \<longrightarrow>
             resultCounts d' ! i = length (segment_keys calc d0 i)
             \<and> resultIndices d' ! i =
                 length (intersected_voxels d) + (\<Sum>l = j..<i. length (segment_keys calc d0 l)))
       \<and> intersected_voxels d' = intersected_voxels d @ concat (map (segment_keys calc d0) [j..<n])"
proof (induction "n - j" arbitrary: j d)
  case 0
  then have "j = n" by simp
  then show ?case using 0 len by (subst onExecute_loop.simps) simp
next
  case (Suc m)
  then have jn: "j < n" by simp
  obtain ks where ks: "calc (query_map d0) (rays d0 ! (2 * j)) (rays d0 ! (2 * j + 1)) True = Some ks"
    using calc jn by auto
  then have seg: "segment_keys calc d0 j = ks" by (simp add: segment_keys_def Suc.prems)
  let ?d1 = "d\<lparr>resultIndices := (resultIndices d)[j := length (intersected_voxels d)],
                resultCounts := (resultCounts d)[j := length ks],
                intersected_voxels := intersected_voxels d @ ks\<rparr>"
  have step: "onExecute_loop calc d (2 * j) = onExecute_loop calc ?d1 (2 * Suc j)"
    using jn len ks Suc.prems by (subst onExecute_loop.simps) simp
  have "m = n - Suc j" using Suc.hyps(2) by simp
  from Suc.hyps(1)[OF this, of ?d1] jn Suc.prems
  obtain d' where d': "onExecute_loop calc ?d1 (2 * Suc j) = Some d'"
    and l1: "length (resultIndices d') = n" and l2: "length (resultCounts d') = n"
    and before: "\<forall>i < Suc j. resultIndices d' ! i = resultIndices ?d1 ! i \<and> resultCounts d' ! i = resultCounts ?d1 ! i"
    and after: "\<forall>i. Suc j \<le> i \<and> i < n \<longrightarrow>
             resultCounts d' ! i = length (segment_keys calc d0 i)
             \<and> resultIndices d' ! i =
                 length (intersected_voxels ?d1) + (\<Sum>l = Suc j..<i. length (segment_keys calc d0 l))"
    and iv: "intersected_voxels d' = intersected_voxels ?d1 @ concat (map (segment_keys calc d0) [Suc j..<n])"
    by auto
  have b: "\<forall>i < j. resultIndices d' ! i = resultIndices d ! i \<and> resultCounts d' ! i = resultCounts d ! i"
    using before by auto
  have atj: "resultCounts d' ! j = length (segment_keys calc d0 j)
             \<and> resultIndices d' ! j = length (intersected_voxels d)"
    using before jn Suc.prems seg by simp
  have a: "\<forall>i. j \<le> i \<and> i < n \<longrightarrow>
             resultCounts d' ! i = length (segment_keys calc d0 i)
             \<and> resultIndices d' ! i =
                 length (intersected_voxels d) + (\<Sum>l = j..<i. length (segment_keys calc d0 l))"
  proof (intro allI impI)
    fix i assume i: "j \<le> i \<and> i < n"
    show "resultCounts d' ! i = length (segment_keys calc d0 i)
             \<and> resultIndices d' ! i =
                 length (intersected_voxels d) + (\<Sum>l = j..<i. length (segment_keys calc d0 l))"
    proof (cases "i = j")
      case True
      then show ?thesis using atj by simp
    next
      case False
      then have "Suc j \<le> i \<and> i < n" using i by simp
      moreover have "(\<Sum>l = j..<i. length (segment_keys calc d0 l)) =
          length (segment_keys calc d0 j) + (\<Sum>l = Suc j..<i. length (segment_keys calc d0 l))"
        using False i by (simp add: sum.atLeast_Suc_lessThan)
      ultimately show ?thesis using after seg by simp
    qed
  qed
  have c: "intersected_voxels d' = intersected_voxels d @ concat (map (segment_keys calc d0) [j..<n])"
    using iv jn seg by (simp add: upt_conv_Cons)
  show ?case using step d' l1 l2 a b c by simp
qed


lemma length_resize: "length (resize xs n) = n"
  by (simp add: resize_def)

lemma sum_list_take_nth: "i \<le> length xs \<Longrightarrow> sum_list (take i xs) = (\<Sum>l = 0..<i. xs ! l)"
proof -
  assume i: "i \<le> length xs"
  have "sum_list (take i xs) = (\<Sum>l = 0..<length (take i xs). take i xs ! l)"
    by (rule sum_list_sum_nth)
  also have "\<dots> = (\<Sum>l = 0..<i. xs ! l)" using i by (simp add: min_absorb2)
  finally show ?thesis .
qed

lemma readGpuResults_loop_frame:
  "readGpuResults_loop d i off = Some d' \<Longrightarrow>
     query_map d' = query_map d \<and> rays d' = rays d \<and> query_flags d' = query_flags d
     \<and> gpuOk d' = gpuOk d \<and> inflight d' = inflight d \<and> number_of_results d' = number_of_results d
     \<and> maxKeysPerLine d' = maxKeysPerLine d \<and> linesOut d' = linesOut d \<and> linePoints d' = linePoints d"
proof (induction d i off rule: readGpuResults_loop.induct)
  case (1 d i off)
  show ?case
  proof (cases "i < length (rays d) div 2")
    case False
    then show ?thesis using "1.prems" by (subst (asm) readGpuResults_loop.simps) simp
  next
    case True
    let ?c = "line_result_count (linesOut d) off"
    from "1.prems" True have
      g: "off < length (linesOut d) \<and> 0 \<le> ?c \<and> off + 1 + nat ?c \<le> length (linesOut d)
            \<and> i < length (resultIndices d) \<and> i < length (resultCounts d)"
      and r: "readGpuResults_loop
                (d\<lparr>resultIndices := (resultIndices d)[i := length (intersected_voxels d)],
                   resultCounts := (resultCounts d)[i := nat ?c],
                   intersected_voxels := intersected_voxels d
                     @ take (nat ?c) (drop (off + 1) (linesOut d))\<rparr>)
                (i + 1) (off + maxKeysPerLine d) = Some d'"
      by (subst (asm) readGpuResults_loop.simps, simp split: if_splits)+
    from "1.IH"[OF True g r] show ?thesis by simp
  qed
qed

lemma readGpuResults_loop_result:
  assumes len: "length (rays d0) = 2 * n"
    and readable: "gpu_lines_readable buf m n"
  shows "j \<le> n \<Longrightarrow> rays d = rays d0 \<Longrightarrow> linesOut d = buf \<Longrightarrow> maxKeysPerLine d = m \<Longrightarrow>
     length (resultIndices d) = n \<Longrightarrow> length (resultCounts d) = n \<Longrightarrow>
     \<exists>d'. readGpuResults_loop d j (j * m) = Some d'
       \<and> length (resultIndices d') = n \<and> length (resultCounts d') = n
       \<and> (\<forall>i < j. resultIndices d' ! i = resultIndices d ! i \<and> resultCounts d' ! i = resultCounts d ! i)
       \<and> (\<forall>i. j \<le> i \<and> i < n \<longrightarrow>
             resultCounts d' ! i = length (gpu_line_keys buf m i)
             \<and> resultIndices d' ! i =
                 length (intersected_voxels d) + (\<Sum>l = j..<i. length (gpu_line_keys buf m l)))
       \<and> intersected_voxels d' = intersected_voxels d @ concat (map (gpu_line_keys buf m) [j..<n])"
proof (induction "n - j" arbitrary: j d)
  case 0
  then have "j = n" by simp
  then show ?case using 0 len by (subst readGpuResults_loop.simps) simp
next
  case (Suc k)
  then have jn: "j < n" by simp
  let ?c = "line_result_count buf (j * m)"
  from readable jn have rd: "j * m < length buf" "0 \<le> ?c" "j * m + 1 + nat ?c \<le> length buf"
    by (simp_all add: gpu_lines_readable_def)
  have seglen: "length (gpu_line_keys buf m j) = nat ?c"
    using rd by (simp add: gpu_line_keys_def)
  let ?d1 = "d\<lparr>resultIndices := (resultIndices d)[j := length (intersected_voxels d)],
                resultCounts := (resultCounts d)[j := nat ?c],
                intersected_voxels := intersected_voxels d @ gpu_line_keys buf m j\<rparr>"
  have step: "readGpuResults_loop d j (j * m) = readGpuResults_loop ?d1 (Suc j) (Suc j * m)"
    using jn len rd Suc.prems
    by (subst readGpuResults_loop.simps) (simp add: gpu_line_keys_def add.commute)
  have "k = n - Suc j" using Suc.hyps(2) by simp
  from Suc.hyps(1)[OF this, of ?d1] jn Suc.prems
  obtain d' where d': "readGpuResults_loop ?d1 (Suc j) (Suc j * m) = Some d'"
    and l1: "length (resultIndices d') = n" and l2: "length (resultCounts d') = n"
    and before: "\<forall>i < Suc j. resultIndices d' ! i = resultIndices ?d1 ! i \<and> resultCounts d' ! i = resultCounts ?d1 ! i"
    and after: "\<forall>i. Suc j \<le> i \<and> i < n \<longrightarrow>
             resultCounts d' ! i = length (gpu_line_keys buf m i)
             \<and> resultIndices d' ! i =
                 length (intersected_voxels ?d1) + (\<Sum>l = Suc j..<i. length (gpu_line_keys buf m l))"
    and iv: "intersected_voxels d' = intersected_voxels ?d1 @ concat (map (gpu_line_keys buf m) [Suc j..<n])"
    by auto
  have b: "\<forall>i < j. resultIndices d' ! i = resultIndices d ! i \<and> resultCounts d' ! i = resultCounts d ! i"
    using before by auto
  have atj: "resultCounts d' ! j = length (gpu_line_keys buf m j)
             \<and> resultIndices d' ! j = length (intersected_voxels d)"
    using before jn Suc.prems seglen by simp
  have a: "\<forall>i. j \<le> i \<and> i < n \<longrightarrow>
             resultCounts d' ! i = length (gpu_line_keys buf m i)
             \<and> resultIndices d' ! i =
                 length (intersected_voxels d) + (\<Sum>l = j..<i. length (gpu_line_keys buf m l))"
  proof (intro allI impI)
    fix i assume i: "j \<le> i \<and> i < n"
    show "resultCounts d' ! i = length (gpu_line_keys buf m i)
             \<and> resultIndices d' ! i =
                 length (intersected_voxels d) + (\<Sum>l = j..<i. length (gpu_line_keys buf m l))"
    proof (cases "i = j")
      case True
      then show ?thesis using atj by simp
    next
      case False
      then have "Suc j \<le> i \<and> i < n" using i by simp
      moreover have "(\<Sum>l = j..<i. length (gpu_line_keys buf m l)) =
          length (gpu_line_keys buf m j) + (\<Sum>l = Suc j..<i. length (gpu_line_keys buf m l))"
        using False i by (simp add: sum.atLeast_Suc_lessThan)
      ultimately show ?thesis using after by simp
    qed
  qed
  have c: "intersected_voxels d' = intersected_voxels d @ concat (map (gpu_line_keys buf m) [j..<n])"
    using iv jn by (simp add: upt_conv_Cons)
  show ?case using step d' l1 l2 a b c by simp
qed

lemma sqrt3_bounds: "5 / 3 < sqrt 3" "3 / 2 < sqrt 3" "sqrt 3 \<le> 2"
proof -
  show "5 / 3 < sqrt 3" by (rule real_less_rsqrt) (simp add: power2_eq_square)
  show "3 / 2 < sqrt 3" by (rule real_less_rsqrt) (simp add: power2_eq_square)
  show "sqrt 3 \<le> 2" by (rule real_le_lsqrt) simp_all
qed

lemma ceiling_3_sqrt3: "\<lceil>3 * sqrt 3\<rceil> = 6"
  using sqrt3_bounds by (simp add: ceiling_eq_iff)

lemma ceiling_2_sqrt3: "\<lceil>2 * sqrt 3\<rceil> = 4"
  using sqrt3_bounds by (simp add: ceiling_eq_iff)

lemma sqrt_9: "sqrt 9 = 3"
  by (rule real_sqrt_unique) simp_all

lemma sqrt_4: "sqrt 4 = 2"
  by (rule real_sqrt_unique) simp_all

lemma two_segment_maxKeys:
  "maxKeys_loop 1 [(0, 0, 0), (3, 0, 0), (0, 0, 0), (0, 2, 0)] 1 = Some 7"
  by (simp add: sqrt_9 sqrt_4 ceiling_3_sqrt3 ceiling_2_sqrt3)

lemma two_segment_cpu:
  "onExecute base False calculateLines calculateSegmentKeys two_segment_query = Some (True, executed_query)"
  by (simp add: onExecute_def initialiseGpu_def kQfGpuEvaluate_def onExecute_fallback_def onExecute_loop.simps resize_def two_segment_query_def
        executed_query_def segment_x_keys_def segment_y_keys_def local_key_def
        scenario_map_def unit_map_def walk_eval)

lemma two_segment_cpu_again:
  "onExecute base False calculateLines calculateSegmentKeys (onReset executed_query False) = Some (True, executed_twice)"
  by (simp add: onExecute_def initialiseGpu_def kQfGpuEvaluate_def onExecute_fallback_def onExecute_loop.simps resize_def two_segment_query_def
        executed_query_def executed_twice_def onReset_def segment_x_keys_def segment_y_keys_def local_key_def
        scenario_map_def unit_map_def walk_eval)

lemma two_segment_gpu_launch:
  "lineKeysQueryGpu two_segment_kernel (snd (initialiseGpu True two_segment_query)) False =
     Some (True, two_segment_query\<lparr>gpuOk := True, inflight := True, maxKeysPerLine := 7,
        linesOut := count_slot 4 # segment_x_keys @ [blank_slot, blank_slot]
         @ count_slot 3 # segment_y_keys @ [blank_slot, blank_slot, blank_slot],
        linePoints := [(0, 0, 0), (3, 0, 0), (0, 0, 0), (0, 2, 0)]\<rparr>)"
  by (simp add: lineKeysQueryGpu_def initialiseGpu_def two_segment_query_def scenario_map_def unit_map_def
       sqrt_9 sqrt_4 ceiling_3_sqrt3 ceiling_2_sqrt3 two_segment_kernel_def grow_def Let_def
       numeral_2_eq_2 numeral_3_eq_3)

lemma initialiseGpu_frame:
  "query_map (snd (initialiseGpu g d)) = query_map d"
  "rays (snd (initialiseGpu g d)) = rays d"
  "query_flags (snd (initialiseGpu g d)) = query_flags d"
  "resultIndices (snd (initialiseGpu g d)) = resultIndices d"
  "resultCounts (snd (initialiseGpu g d)) = resultCounts d"
  "intersected_voxels (snd (initialiseGpu g d)) = intersected_voxels d"
  "number_of_results (snd (initialiseGpu g d)) = number_of_results d"
  "gpuOk (snd (initialiseGpu g d)) = (gpuOk d \<or> g)"
  by (simp_all add: initialiseGpu_def)

lemma lineKeysQueryGpu_frame:
  assumes "lineKeysQueryGpu k d a = Some (ok, d')"
  shows "query_map d' = query_map d \<and> rays d' = rays d \<and> query_flags d' = query_flags d
     \<and> resultIndices d' = resultIndices d \<and> resultCounts d' = resultCounts d
     \<and> intersected_voxels d' = intersected_voxels d
     \<and> number_of_results d' = number_of_results d \<and> gpuOk d' = gpuOk d"
  using assms
  by (auto simp: lineKeysQueryGpu_def Let_def split: option.splits if_splits)

lemma onExecute_fallback_frame:
  "onExecute_fallback calc d = Some (ok, d') \<Longrightarrow> query_map d' = query_map d"
proof -
  assume r: "onExecute_fallback calc d = Some (ok, d')"
  let ?d1 = "d\<lparr>resultIndices := resize (resultIndices d) (length (rays d) div 2),
                resultCounts := resize (resultCounts d) (length (rays d) div 2)\<rparr>"
  from r obtain d2 where l: "onExecute_loop calc ?d1 0 = Some d2"
    and d': "d' = d2\<lparr>number_of_results := length (resultIndices d2)\<rparr>"
    by (auto simp: onExecute_fallback_def split: option.splits)
  from onExecute_loop_frame[OF l] d' show ?thesis by simp
qed

lemma readGpuResults_frame:
  "readGpuResults d = Some (ok, d') \<Longrightarrow> query_map d' = query_map d"
proof -
  assume r: "readGpuResults d = Some (ok, d')"
  let ?d1 = "d\<lparr>resultIndices := resize (resultIndices d) (length (rays d) div 2),
                resultCounts := resize (resultCounts d) (length (rays d) div 2)\<rparr>"
  from r obtain d2 where l: "readGpuResults_loop ?d1 0 0 = Some d2"
    and d': "d' = d2\<lparr>number_of_results := length (rays d) div 2, inflight := False\<rparr>"
    by (auto simp: readGpuResults_def split: option.splits)
  from readGpuResults_loop_frame[OF l] d' show ?thesis by simp
qed

lemma results_layoutI:
  assumes "length (resultIndices d') = n" "length (resultCounts d') = n" "number_of_results d' = n"
    and cnt: "\<And>i. i < n \<Longrightarrow> resultCounts d' ! i = length (seg i)"
    and idx: "\<And>i. i < n \<Longrightarrow> resultIndices d' ! i = length (intersected_voxels d) + (\<Sum>l = 0..<i. length (seg l))"
    and iv: "intersected_voxels d' = intersected_voxels d @ concat (map seg [0..<n])"
  shows "results_layout n seg d d'"
proof -
  have "resultIndices d' ! i = length (intersected_voxels d) + sum_list (take i (resultCounts d'))"
    if i: "i < n" for i
  proof -
    have "sum_list (take i (resultCounts d')) = (\<Sum>l = 0..<i. resultCounts d' ! l)"
      using i assms(2) by (simp add: sum_list_take_nth)
    also have "\<dots> = (\<Sum>l = 0..<i. length (seg l))"
      using i cnt by (intro sum.cong) simp_all
    finally show ?thesis using idx[OF i] by simp
  qed
  then show ?thesis using assms by (simp add: results_layout_def)
qed

lemma onExecute_fallback_general:
  assumes len: "length (rays d) = 2 * n"
    and calc: "\<forall>i < n. calc (query_map d) (rays d ! (2 * i)) (rays d ! (2 * i + 1)) True \<noteq> None"
  shows "\<exists>d'. onExecute_fallback calc d = Some (True, d') \<and> results_layout n (segment_keys calc d) d d'"
proof -
  let ?d1 = "d\<lparr>resultIndices := resize (resultIndices d) (length (rays d) div 2),
                resultCounts := resize (resultCounts d) (length (rays d) div 2)\<rparr>"
  have "\<exists>d'. onExecute_loop calc ?d1 (2 * 0) = Some d'
       \<and> length (resultIndices d') = n \<and> length (resultCounts d') = n
       \<and> (\<forall>i < 0. resultIndices d' ! i = resultIndices ?d1 ! i \<and> resultCounts d' ! i = resultCounts ?d1 ! i)
       \<and> (\<forall>i. 0 \<le> i \<and> i < n \<longrightarrow>
             resultCounts d' ! i = length (segment_keys calc d i)
             \<and> resultIndices d' ! i =
                 length (intersected_voxels ?d1) + (\<Sum>l = 0..<i. length (segment_keys calc d l)))
       \<and> intersected_voxels d' = intersected_voxels ?d1 @ concat (map (segment_keys calc d) [0..<n])"
    using onExecute_loop_result[where ?d0.0 = d and n = n and calc = calc and j = 0 and d = ?d1,
        OF len calc]
    by (simp add: length_resize len)
  then obtain d' where run: "onExecute_loop calc ?d1 0 = Some d'"
    and l1: "length (resultIndices d') = n" and l2: "length (resultCounts d') = n"
    and cnt: "\<And>i. i < n \<Longrightarrow> resultCounts d' ! i = length (segment_keys calc d i)"
    and idx: "\<And>i. i < n \<Longrightarrow> resultIndices d' ! i =
                 length (intersected_voxels d) + (\<Sum>l = 0..<i. length (segment_keys calc d l))"
    and iv: "intersected_voxels d' = intersected_voxels d @ concat (map (segment_keys calc d) [0..<n])"
    by auto
  let ?r = "d'\<lparr>number_of_results := length (resultIndices d')\<rparr>"
  have "onExecute_fallback calc d = Some (True, ?r)"
    using run by (simp add: onExecute_fallback_def)
  moreover have "results_layout n (segment_keys calc d) d ?r"
    by (rule results_layoutI) (simp_all add: l1 l2 cnt idx iv)
  ultimately show ?thesis by blast
qed

lemma readGpuResults_general:
  assumes len: "length (rays d) = 2 * n"
    and readable: "gpu_lines_readable (linesOut d) (maxKeysPerLine d) n"
  shows "\<exists>d'. readGpuResults d = Some (True, d')
           \<and> results_layout n (gpu_line_keys (linesOut d) (maxKeysPerLine d)) d d'"
proof -
  let ?seg = "gpu_line_keys (linesOut d) (maxKeysPerLine d)"
  let ?d1 = "d\<lparr>resultIndices := resize (resultIndices d) (length (rays d) div 2),
                resultCounts := resize (resultCounts d) (length (rays d) div 2)\<rparr>"
  have "\<exists>d'. readGpuResults_loop ?d1 0 (0 * maxKeysPerLine d) = Some d'
       \<and> length (resultIndices d') = n \<and> length (resultCounts d') = n
       \<and> (\<forall>i < 0. resultIndices d' ! i = resultIndices ?d1 ! i \<and> resultCounts d' ! i = resultCounts ?d1 ! i)
       \<and> (\<forall>i. 0 \<le> i \<and> i < n \<longrightarrow>
             resultCounts d' ! i = length (?seg i)
             \<and> resultIndices d' ! i =
                 length (intersected_voxels ?d1) + (\<Sum>l = 0..<i. length (?seg l)))
       \<and> intersected_voxels d' = intersected_voxels ?d1 @ concat (map ?seg [0..<n])"
    using readGpuResults_loop_result[where ?d0.0 = d and n = n and buf = "linesOut d"
        and m = "maxKeysPerLine d" and j = 0 and d = ?d1, OF len readable]
    by (simp add: length_resize len)
  then obtain d' where run: "readGpuResults_loop ?d1 0 0 = Some d'"
    and l1: "length (resultIndices d') = n" and l2: "length (resultCounts d') = n"
    and cnt: "\<And>i. i < n \<Longrightarrow> resultCounts d' ! i = length (?seg i)"
    and idx: "\<And>i. i < n \<Longrightarrow> resultIndices d' ! i =
                 length (intersected_voxels d) + (\<Sum>l = 0..<i. length (?seg l))"
    and iv: "intersected_voxels d' = intersected_voxels d @ concat (map ?seg [0..<n])"
    by auto
  let ?r = "d'\<lparr>number_of_results := length (rays d) div 2, inflight := False\<rparr>"
  have "readGpuResults d = Some (True, ?r)"
    using run by (simp add: readGpuResults_def)
  moreover have "results_layout n ?seg d ?r"
    by (rule results_layoutI) (simp_all add: l1 l2 cnt idx iv len)
  ultimately show ?thesis by blast
qed

lemma results_layout_start:
  "results_layout n seg d d' \<Longrightarrow> intersected_voxels d0 = intersected_voxels d \<Longrightarrow>
   results_layout n seg d0 d'"
  by (simp add: results_layout_def)

lemma two_segment_gpu:
  "onExecute base True two_segment_kernel calc two_segment_query =
     Some (True, executed_query\<lparr>gpuOk := True, maxKeysPerLine := 7,
        linesOut := count_slot 4 # segment_x_keys @ [blank_slot, blank_slot]
         @ count_slot 3 # segment_y_keys @ [blank_slot, blank_slot, blank_slot],
        linePoints := [(0, 0, 0), (3, 0, 0), (0, 0, 0), (0, 2, 0)]\<rparr>)"
proof -
  have f: "query_flags two_segment_query AND kQfGpuEvaluate \<noteq> 0"
    "gpuOk (snd (initialiseGpu True two_segment_query))"
    by (simp_all add: two_segment_query_def kQfGpuEvaluate_def initialiseGpu_def)
  show ?thesis
    unfolding onExecute_def using f
    by (simp add: two_segment_gpu_launch)
       (simp add: readGpuResults_def readGpuResults_loop.simps resize_def two_segment_query_def
          executed_query_def line_result_count_def count_slot_def segment_x_keys_def
          segment_y_keys_def)
qed

lemma two_segment_gpu_readable:
  "gpu_lines_readable
     (count_slot 4 # segment_x_keys @ [blank_slot, blank_slot]
        @ count_slot 3 # segment_y_keys @ [blank_slot, blank_slot, blank_slot]) 7 2"
proof -
  have two: "(\<forall>i < 2. P i) = (P 0 \<and> P 1)" for P :: "nat \<Rightarrow> bool"
    by (auto simp: less_2_cases_iff)
  show ?thesis
    unfolding gpu_lines_readable_def two
    by (simp add: line_result_count_def count_slot_def segment_x_keys_def segment_y_keys_def)
qed

text \<open>
  Claim C3 as stated fails: the start indices count from the length the global key list
  has when the execution starts, and neither the execution nor \<open>onReset\<close> empties that
  list.  The two-segment query, executed, reset and executed again, has the start
  indices \<open>[7, 11]\<close> with the counts \<open>[4, 3]\<close>.
\<close>

theorem onExecute_again_counterexample:
  "onExecute unreached_base False two_segment_kernel calculateSegmentKeys two_segment_query
     = Some (True, executed_query)
   \<and> onExecute unreached_base False two_segment_kernel calculateSegmentKeys
        (onReset executed_query False) = Some (True, executed_twice)
   \<and> resultIndices executed_twice = [7, 11] \<and> resultCounts executed_twice = [4, 3]
   \<and> resultIndices executed_twice ! 0 \<noteq> sum_list (take 0 (resultCounts executed_twice))"
  by (simp add: two_segment_cpu two_segment_cpu_again) (simp add: executed_twice_def)

text \<open>
  Claim C3, amended.  Let a query of \<open>n\<close> segments ask for GPU evaluation.  When the
  GPU is not available and the walks return, or when the GPU is ready, the kernel is
  launched without error and the buffer it leaves can be read, the execution succeeds
  and leaves \<open>n\<close> start indices and \<open>n\<close> counts in the order of the segments: the
  count of a segment is the number of its keys, its start index is the length the
  global key list had at the start plus the sum of the counts before it, and the
  global key list is the list at the start followed by the keys of the segments in
  order.  On a query whose key list is empty the start index is the sum of the counts
  before it; the two segments from the origin to \<open>(3, 0, 0)\<close> and to \<open>(0, 2, 0)\<close> at
  resolution 1 yield the indices \<open>[0, 4]\<close> and the counts \<open>[4, 3]\<close>.
\<close>

theorem onExecute_results:
  assumes flag: "query_flags d AND kQfGpuEvaluate \<noteq> 0"
    and len: "length (rays d) = 2 * n"
  shows "(\<not> gpuOk d \<and> \<not> gpu_available
            \<and> (\<forall>i < n. calc (query_map d) (rays d ! (2 * i)) (rays d ! (2 * i + 1)) True \<noteq> None) \<longrightarrow>
          (\<exists>d'. onExecute base gpu_available calculateLines calc d = Some (True, d')
                \<and> results_layout n (segment_keys calc d) d d'))
       \<and> ((gpuOk d \<or> gpu_available)
            \<and> lineKeysQueryGpu calculateLines (snd (initialiseGpu gpu_available d)) False
                 = Some (True, dq)
            \<and> gpu_lines_readable (linesOut dq) (maxKeysPerLine dq) n \<longrightarrow>
          (\<exists>d'. onExecute base gpu_available calculateLines calc d = Some (True, d')
                \<and> results_layout n (gpu_line_keys (linesOut dq) (maxKeysPerLine dq)) d d'))
       \<and> (\<exists>d'. onExecute base False calculateLines calculateSegmentKeys two_segment_query
                  = Some (True, d')
              \<and> resultIndices d' = [0, 4] \<and> resultCounts d' = [4, 3])"
proof -
  have cpu: "\<exists>d'. onExecute base gpu_available calculateLines calc d = Some (True, d')
                \<and> results_layout n (segment_keys calc d) d d'"
    if h: "\<not> gpuOk d \<and> \<not> gpu_available
            \<and> (\<forall>i < n. calc (query_map d) (rays d ! (2 * i)) (rays d ! (2 * i + 1)) True \<noteq> None)"
  proof -
    have i: "initialiseGpu gpu_available d = (False, d)" using h by (simp add: initialiseGpu_def)
    have "onExecute base gpu_available calculateLines calc d = onExecute_fallback calc d"
      unfolding onExecute_def i using flag h by simp
    then show ?thesis using onExecute_fallback_general[OF len, of calc] h by simp
  qed
  have gpu: "\<exists>d'. onExecute base gpu_available calculateLines calc d = Some (True, d')
                \<and> results_layout n (gpu_line_keys (linesOut dq) (maxKeysPerLine dq)) d d'"
    if h: "(gpuOk d \<or> gpu_available)
            \<and> lineKeysQueryGpu calculateLines (snd (initialiseGpu gpu_available d)) False
                 = Some (True, dq)
            \<and> gpu_lines_readable (linesOut dq) (maxKeysPerLine dq) n"
  proof -
    from h have launch: "lineKeysQueryGpu calculateLines (snd (initialiseGpu gpu_available d)) False
                 = Some (True, dq)" by simp
    note fr = lineKeysQueryGpu_frame[OF launch]
    have r: "length (rays dq) = 2 * n" using fr len by (simp add: initialiseGpu_frame)
    have iv: "intersected_voxels d = intersected_voxels dq" using fr by (simp add: initialiseGpu_frame)
    have "onExecute base gpu_available calculateLines calc d = readGpuResults dq"
      using flag h by (simp add: onExecute_def initialiseGpu_frame)
    moreover from readGpuResults_general[OF r] h
    obtain d' where "readGpuResults dq = Some (True, d')"
      "results_layout n (gpu_line_keys (linesOut dq) (maxKeysPerLine dq)) dq d'" by blast
    ultimately show ?thesis using results_layout_start[OF _ iv] by auto
  qed
  have "\<exists>d'. onExecute base False calculateLines calculateSegmentKeys two_segment_query
                  = Some (True, d')
              \<and> resultIndices d' = [0, 4] \<and> resultCounts d' = [4, 3]"
    by (simp add: two_segment_cpu executed_query_def)
  with cpu gpu show ?thesis by blast
qed

theorem onExecute_results_witness:
  "query_flags two_segment_query AND kQfGpuEvaluate \<noteq> 0
   \<and> length (rays two_segment_query) = 2 * 2
   \<and> (\<exists>d'. onExecute unreached_base False two_segment_kernel calculateSegmentKeys
              two_segment_query = Some (True, d')
          \<and> resultIndices d' = [0, 4] \<and> resultCounts d' = [4, 3]
          \<and> intersected_voxels d' = segment_x_keys @ segment_y_keys)
   \<and> (\<exists>d'. onExecute unreached_base True two_segment_kernel calculateSegmentKeys
              two_segment_query = Some (True, d')
          \<and> resultIndices d' = [0, 4] \<and> resultCounts d' = [4, 3]
          \<and> intersected_voxels d' = segment_x_keys @ segment_y_keys)"
proof -
  have flag: "query_flags two_segment_query AND kQfGpuEvaluate \<noteq> 0"
    and len: "length (rays two_segment_query) = 2 * 2"
    by (simp_all add: two_segment_query_def kQfGpuEvaluate_def)
  note inst = onExecute_results[OF flag len]
  have walks: "\<forall>i < 2. calculateSegmentKeys (query_map two_segment_query)
                  (rays two_segment_query ! (2 * i)) (rays two_segment_query ! (2 * i + 1)) True \<noteq> None"
  proof (intro allI impI)
    fix i :: nat assume "i < 2"
    then have "i = 0 \<or> i = 1" by auto
    then show "calculateSegmentKeys (query_map two_segment_query)
                  (rays two_segment_query ! (2 * i)) (rays two_segment_query ! (2 * i + 1)) True \<noteq> None"
      by (auto simp: two_segment_query_def scenario_map_def unit_map_def walk_eval)
  qed
  have off: "\<not> gpuOk two_segment_query" by (simp add: two_segment_query_def)
  from inst[where gpu_available = False and calc = calculateSegmentKeys
      and base = unreached_base and calculateLines = two_segment_kernel] off walks
  obtain d1 where d1: "onExecute unreached_base False two_segment_kernel calculateSegmentKeys
              two_segment_query = Some (True, d1)"
    and l1: "results_layout 2 (segment_keys calculateSegmentKeys two_segment_query) two_segment_query d1"
    by blast
  from d1 have e1: "d1 = executed_query" by (simp add: two_segment_cpu)
  define dq where "dq = two_segment_query\<lparr>gpuOk := True, inflight := True, maxKeysPerLine := 7,
        linesOut := count_slot 4 # segment_x_keys @ [blank_slot, blank_slot]
         @ count_slot 3 # segment_y_keys @ [blank_slot, blank_slot, blank_slot],
        linePoints := [(0, 0, 0), (3, 0, 0), (0, 0, 0), (0, 2, 0)]\<rparr>"
  have launch: "lineKeysQueryGpu two_segment_kernel (snd (initialiseGpu True two_segment_query))
        False = Some (True, dq)"
    using two_segment_gpu_launch by (simp add: dq_def)
  have readable: "gpu_lines_readable (linesOut dq) (maxKeysPerLine dq) 2"
    using two_segment_gpu_readable by (simp add: dq_def)
  from inst[where gpu_available = True and calc = calculateSegmentKeys
      and base = unreached_base and calculateLines = two_segment_kernel and dq = dq]
    launch readable
  obtain d2 where d2: "onExecute unreached_base True two_segment_kernel calculateSegmentKeys
              two_segment_query = Some (True, d2)"
    by blast
  from d2 have e2: "d2 = executed_query\<lparr>gpuOk := True, maxKeysPerLine := 7,
        linesOut := count_slot 4 # segment_x_keys @ [blank_slot, blank_slot]
         @ count_slot 3 # segment_y_keys @ [blank_slot, blank_slot, blank_slot],
        linePoints := [(0, 0, 0), (3, 0, 0), (0, 0, 0), (0, 2, 0)]\<rparr>"
    by (simp add: two_segment_gpu)
  have "resultIndices d1 = [0, 4] \<and> resultCounts d1 = [4, 3]
          \<and> intersected_voxels d1 = segment_x_keys @ segment_y_keys"
    "resultIndices d2 = [0, 4] \<and> resultCounts d2 = [4, 3]
          \<and> intersected_voxels d2 = segment_x_keys @ segment_y_keys"
    by (simp_all add: e1 e2 executed_query_def)
  with flag len d1 d2 show ?thesis by blast
qed

text \<open>
  Claim C9.  When the execution of a query returns, the map of the query is the map it
  started with: the same chunks, and the same value at every voxel.  This holds on the
  GPU branch and on the CPU branch; on the branch that hands the call to the base
  class it holds when the base class leaves the map as it is.
\<close>

theorem onExecute_map_unchanged:
  assumes run: "onExecute base gpu_available calculateLines calc d = Some (ok, d')"
    and base: "query_flags d AND kQfGpuEvaluate = 0 \<longrightarrow>
                 (\<forall>r. base d = Some r \<longrightarrow> query_map (snd r) = query_map d)"
  shows "query_map d' = query_map d
       \<and> chunks (query_map d') = chunks (query_map d)
       \<and> (\<forall>k. voxelValue (query_map d') k = voxelValue (query_map d) k)"
proof -
  let ?d1 = "snd (initialiseGpu gpu_available d)"
  have "query_map d' = query_map d"
  proof (cases "query_flags d AND kQfGpuEvaluate = 0")
    case True
    then have "base d = Some (ok, d')" using run by (simp add: onExecute_def)
    then show ?thesis using base True by auto
  next
    case flag: False
    show ?thesis
    proof (cases "gpuOk ?d1")
      case False
      then have "onExecute_fallback calc ?d1 = Some (ok, d')"
        using run flag by (simp add: onExecute_def)
      from onExecute_fallback_frame[OF this] show ?thesis by (simp add: initialiseGpu_frame)
    next
      case True
      then obtain ok1 dq where launch: "lineKeysQueryGpu calculateLines ?d1 False = Some (ok1, dq)"
        and rest: "(if ok1 then readGpuResults dq else Some (False, dq)) = Some (ok, d')"
        using run flag by (auto simp: onExecute_def split: option.splits)
      from lineKeysQueryGpu_frame[OF launch] have q: "query_map dq = query_map d"
        by (simp add: initialiseGpu_frame)
      show ?thesis
      proof (cases ok1)
        case True
        then have "readGpuResults dq = Some (ok, d')" using rest by simp
        from readGpuResults_frame[OF this] q show ?thesis by simp
      next
        case False
        then show ?thesis using rest q by simp
      qed
    qed
  qed
  then show ?thesis by simp
qed

theorem onExecute_map_unchanged_witness:
  "(\<exists>d'. onExecute unreached_base False two_segment_kernel calculateSegmentKeys
            two_segment_query = Some (True, d')
         \<and> query_map d' = scenario_map
         \<and> voxelValue (query_map d') (local_key 2 0 0) = Some 1
         \<and> voxelValue (query_map d') (local_key 1 0 0) = None)
   \<and> (\<exists>d'. onExecute unreached_base True two_segment_kernel calculateSegmentKeys
            two_segment_query = Some (True, d')
         \<and> query_map d' = scenario_map)
   \<and> (\<exists>d'. onExecute (onExecute_fallback calculateSegmentKeys) False two_segment_kernel
            calculateSegmentKeys (two_segment_query\<lparr>query_flags := 0\<rparr>) = Some (True, d')
         \<and> query_map d' = scenario_map)"
proof -
  have v: "voxelValue scenario_map (local_key 2 0 0) = Some 1"
    "voxelValue scenario_map (local_key 1 0 0) = None"
    by (simp_all add: voxelValue_def scenario_map_def local_key_def)
  have q: "query_map two_segment_query = scenario_map"
    "query_map (two_segment_query\<lparr>query_flags := 0\<rparr>) = scenario_map"
    by (simp_all add: two_segment_query_def)
  have flag: "query_flags two_segment_query AND kQfGpuEvaluate \<noteq> 0"
    by (simp add: two_segment_query_def kQfGpuEvaluate_def)
  have r1: "onExecute unreached_base False two_segment_kernel calculateSegmentKeys
            two_segment_query = Some (True, executed_query)"
    by (rule two_segment_cpu)
  have r2: "onExecute unreached_base True two_segment_kernel calculateSegmentKeys
            two_segment_query = Some (True, executed_query\<lparr>gpuOk := True, maxKeysPerLine := 7,
        linesOut := count_slot 4 # segment_x_keys @ [blank_slot, blank_slot]
         @ count_slot 3 # segment_y_keys @ [blank_slot, blank_slot, blank_slot],
        linePoints := [(0, 0, 0), (3, 0, 0), (0, 0, 0), (0, 2, 0)]\<rparr>)"
    by (rule two_segment_gpu)
  have "onExecute (onExecute_fallback calculateSegmentKeys) False two_segment_kernel
            calculateSegmentKeys (two_segment_query\<lparr>query_flags := 0\<rparr>)
          = onExecute_fallback calculateSegmentKeys (two_segment_query\<lparr>query_flags := 0\<rparr>)"
    by (simp add: onExecute_def)
  moreover have "onExecute_fallback calculateSegmentKeys (two_segment_query\<lparr>query_flags := 0\<rparr>)
          = Some (True, executed_query\<lparr>query_flags := 0\<rparr>)"
    by (simp add: onExecute_fallback_def onExecute_loop.simps resize_def two_segment_query_def
        executed_query_def segment_x_keys_def segment_y_keys_def local_key_def
        scenario_map_def unit_map_def walk_eval)
  ultimately have r3: "onExecute (onExecute_fallback calculateSegmentKeys) False two_segment_kernel
            calculateSegmentKeys (two_segment_query\<lparr>query_flags := 0\<rparr>)
          = Some (True, executed_query\<lparr>query_flags := 0\<rparr>)" by simp
  have b3: "query_flags (two_segment_query\<lparr>query_flags := 0\<rparr>) AND kQfGpuEvaluate = 0 \<longrightarrow>
        (\<forall>r. onExecute_fallback calculateSegmentKeys (two_segment_query\<lparr>query_flags := 0\<rparr>) = Some r
           \<longrightarrow> query_map (snd r) = query_map (two_segment_query\<lparr>query_flags := 0\<rparr>))"
    using onExecute_fallback_frame by (metis prod.collapse)
  from onExecute_map_unchanged[OF r1] flag q v
  have a1: "query_map executed_query = scenario_map
         \<and> voxelValue (query_map executed_query) (local_key 2 0 0) = Some 1
         \<and> voxelValue (query_map executed_query) (local_key 1 0 0) = None"
    by simp
  from onExecute_map_unchanged[OF r2] flag q
  have a2: "query_map (executed_query\<lparr>gpuOk := True, maxKeysPerLine := 7,
        linesOut := count_slot 4 # segment_x_keys @ [blank_slot, blank_slot]
         @ count_slot 3 # segment_y_keys @ [blank_slot, blank_slot, blank_slot],
        linePoints := [(0, 0, 0), (3, 0, 0), (0, 0, 0), (0, 2, 0)]\<rparr>) = scenario_map"
    by simp
  from onExecute_map_unchanged[OF r3 b3] q
  have a3: "query_map (executed_query\<lparr>query_flags := 0\<rparr>) = scenario_map" by simp
  from r1 r2 r3 a1 a2 a3 show ?thesis by blast
qed


section \<open>Properties of waiting for an asynchronous query\<close>

lemma evolve_Suc: "evolve env t (Suc n) d = env (t + n) (evolve env t n d)"
  by (induction n arbitrary: t d) simp_all

lemma onWaitAsync_loop_result:
  assumes r: "onWaitAsync_loop env now timeout_ms t d = Some y"
  shows "t \<le> snd y \<and> fst y = evolve env t (snd y - t) d
     \<and> (inflight (fst y) \<longrightarrow> timeout_ms \<noteq> NOT 0 \<and> real (unat timeout_ms) \<le> now (snd y) - now 0)"
proof -
  let ?P = "\<lambda>env now timeout_ms t d y. t \<le> snd y \<and> fst y = evolve env t (snd y - t) d
     \<and> (inflight (fst y) \<longrightarrow> timeout_ms \<noteq> NOT 0 \<and> real (unat timeout_ms) \<le> now (snd y) - now 0)"
  have "?P env now timeout_ms t d y"
  proof (rule onWaitAsync_loop.raw_induct[where P = ?P, OF _ r])
    fix loop env now timeout_ms t d y
    assume IH: "\<And>env now timeout_ms t d y. loop env now timeout_ms t d = Some y \<Longrightarrow> ?P env now timeout_ms t d y"
      and eq: "(if inflight d
                then if timeout_ms \<noteq> NOT 0 \<and> real (unat timeout_ms) \<le> now (Suc t) - now 0
                     then Some (env t d, Suc t)
                     else loop env now timeout_ms (Suc t) (env t d)
                else Some (d, t)) = Some y"
    show "?P env now timeout_ms t d y"
    proof (cases "inflight d")
      case False
      then have "y = (d, t)" using eq by simp
      then show ?thesis using False by simp
    next
      case True
      show ?thesis
      proof (cases "timeout_ms \<noteq> NOT 0 \<and> real (unat timeout_ms) \<le> now (Suc t) - now 0")
        case timeout: True
        then have "y = (env t d, Suc t)" using eq True by simp
        then show ?thesis using timeout by simp
      next
        case False
        then have "loop env now timeout_ms (Suc t) (env t d) = Some y" using eq True by (simp split: if_splits)
        from IH[OF this]
        have a: "Suc t \<le> snd y" and b: "fst y = evolve env (Suc t) (snd y - Suc t) (env t d)"
          and c: "inflight (fst y) \<longrightarrow> timeout_ms \<noteq> NOT 0 \<and> real (unat timeout_ms) \<le> now (snd y) - now 0"
          by simp_all
        from a obtain k where k: "snd y = Suc t + k" using le_Suc_ex by blast
        have "evolve env t (Suc k) d = evolve env (Suc t) k (env t d)" by simp
        moreover have "snd y - t = Suc k" "snd y - Suc t = k" using k by simp_all
        ultimately have "fst y = evolve env t (snd y - t) d" using b by (simp only:)
        moreover have "t \<le> snd y" using a by simp
        ultimately show ?thesis using c by blast
      qed
    qed
  qed
  then show ?thesis .
qed

lemma onWaitAsync_loop_timeout:
  assumes "timeout_ms \<noteq> NOT 0" and "real (unat timeout_ms) \<le> now n - now 0"
  shows "t < n \<Longrightarrow> \<exists>y. onWaitAsync_loop env now timeout_ms t d = Some y \<and> snd y \<le> n"
proof (induction "n - t" arbitrary: t d)
  case 0
  then show ?case by simp
next
  case (Suc m)
  show ?case
  proof (cases "inflight d")
    case False
    then show ?thesis using Suc.prems by (subst onWaitAsync_loop.simps) simp
  next
    case True
    show ?thesis
    proof (cases "timeout_ms \<noteq> NOT 0 \<and> real (unat timeout_ms) \<le> now (Suc t) - now 0")
      case timeout: True
      then show ?thesis using True Suc.prems by (subst onWaitAsync_loop.simps) simp
    next
      case False
      then have "Suc t \<noteq> n" using assms by auto
      then have lt: "Suc t < n" using Suc.prems by simp
      have "m = n - Suc t" using Suc.hyps(2) by simp
      from Suc.hyps(1)[OF this lt, of "env t d"] False True show ?thesis
        by (subst onWaitAsync_loop.simps) auto
    qed
  qed
qed

lemma onWaitAsync_loop_completes:
  "\<not> inflight (evolve env t n d) \<Longrightarrow> \<exists>y. onWaitAsync_loop env now timeout_ms t d = Some y \<and> snd y \<le> t + n"
proof (induction n arbitrary: t d)
  case 0
  then show ?case by (subst onWaitAsync_loop.simps) simp
next
  case (Suc n)
  from Suc.prems have "\<not> inflight (evolve env (Suc t) n (env t d))" by simp
  from Suc.IH[OF this] obtain d' t' where
    y: "onWaitAsync_loop env now timeout_ms (Suc t) (env t d) = Some (d', t')" "t' \<le> Suc t + n"
    by auto
  show ?case
  proof (cases "inflight d \<and> \<not> (timeout_ms \<noteq> NOT 0 \<and> real (unat timeout_ms) \<le> now (Suc t) - now 0)")
    case True
    then show ?thesis using y by (subst onWaitAsync_loop.simps) simp
  next
    case False
    then show ?thesis by (subst onWaitAsync_loop.simps) auto
  qed
qed

lemma evolve_never_completes: "evolve never_completes t n d = d"
  by (induction n arbitrary: t) (simp_all add: never_completes_def)

text \<open>
  Claim C8 as stated fails for the timeout \<^verbatim>\<open>~0u\<close>, which the loop exempts from the
  clock test: with a query that stays in flight and a clock that passes
  \<open>4294967295\<close> milliseconds during the first sleep, the timeout has elapsed and the
  wait does not return.
\<close>

theorem onWaitAsync_unlimited_counterexample:
  "real (unat (NOT 0 :: 32 word)) \<le> clock_2p32ms 1 - clock_2p32ms 0
   \<and> inflight (evolve never_completes 0 1 pending_query)
   \<and> onWaitAsync never_completes clock_2p32ms pending_query (NOT 0) = None"
proof -
  have i: "inflight pending_query" by (simp add: pending_query_def)
  have "onWaitAsync_loop never_completes clock_2p32ms (NOT 0) 0 pending_query = None"
  proof (rule ccontr)
    assume "onWaitAsync_loop never_completes clock_2p32ms (NOT 0) 0 pending_query \<noteq> None"
    then obtain y where y: "onWaitAsync_loop never_completes clock_2p32ms (NOT 0) 0 pending_query = Some y"
      by auto
    from onWaitAsync_loop_result[OF y] i show False
      by (auto simp: evolve_never_completes)
  qed
  then have "onWaitAsync never_completes clock_2p32ms pending_query (NOT 0) = None"
    by (simp add: onWaitAsync_def)
  moreover have "real (unat (NOT 0 :: 32 word)) \<le> clock_2p32ms 1 - clock_2p32ms 0"
    by (simp add: clock_2p32ms_def unsigned_minus_1_eq_mask mask_eq_exp_minus_1)
  moreover have "inflight (evolve never_completes 0 1 pending_query)"
    using i by (simp only: evolve_never_completes)
  ultimately show ?thesis by blast
qed

text \<open>
  Claim C8, amended.  When \<open>onWaitAsync\<close> returns, the detail is what the environment
  alone made of it during the sleeps (the wait writes nothing, so it cancels nothing),
  the result is true exactly when the query is no longer in flight then, and the result
  is false only when the timeout is not \<^verbatim>\<open>~0u\<close> and the clock has passed it.  When the
  clock passes a timeout other than \<^verbatim>\<open>~0u\<close> while the query stays in flight, the wait
  returns false, with the query still in flight.  When the query completes, the wait
  returns, whatever the timeout.
\<close>

theorem onWaitAsync_completion:
  "(onWaitAsync env now d timeout_ms = Some (b, d', t) \<longrightarrow>
      d' = evolve env 0 t d \<and> b = (\<not> inflight d')
      \<and> (\<not> b \<longrightarrow> timeout_ms \<noteq> NOT 0 \<and> real (unat timeout_ms) \<le> now t - now 0))
   \<and> (timeout_ms \<noteq> NOT 0 \<and> 0 < n \<and> real (unat timeout_ms) \<le> now n - now 0
        \<and> (\<forall>k \<le> n. inflight (evolve env 0 k d)) \<longrightarrow>
      (\<exists>t \<le> n. onWaitAsync env now d timeout_ms = Some (False, evolve env 0 t d, t)
                \<and> inflight (evolve env 0 t d)))
   \<and> (\<not> inflight (evolve env 0 n d) \<longrightarrow>
      (\<exists>r. onWaitAsync env now d timeout_ms = Some r))"
proof -
  have first: "d' = evolve env 0 t d \<and> b = (\<not> inflight d')
      \<and> (\<not> b \<longrightarrow> timeout_ms \<noteq> NOT 0 \<and> real (unat timeout_ms) \<le> now t - now 0)"
    if r: "onWaitAsync env now d timeout_ms = Some (b, d', t)"
  proof -
    from r have l: "onWaitAsync_loop env now timeout_ms 0 d = Some (d', t)" and b: "b = (\<not> inflight d')"
      by (auto simp: onWaitAsync_def split: option.splits)
    from onWaitAsync_loop_result[OF l] b show ?thesis by simp
  qed
  have second: "\<exists>t \<le> n. onWaitAsync env now d timeout_ms = Some (False, evolve env 0 t d, t)
                \<and> inflight (evolve env 0 t d)"
    if a: "timeout_ms \<noteq> NOT 0 \<and> 0 < n \<and> real (unat timeout_ms) \<le> now n - now 0
        \<and> (\<forall>k \<le> n. inflight (evolve env 0 k d))"
  proof -
  from a obtain d' t where l: "onWaitAsync_loop env now timeout_ms 0 d = Some (d', t)" and t: "t \<le> n"
    using onWaitAsync_loop_timeout[of timeout_ms now n 0 env d] by auto
  from onWaitAsync_loop_result[OF l] have d': "d' = evolve env 0 t d" by simp
  have "inflight (evolve env 0 t d)" using a t by blast
  then show ?thesis
    using l t d' by (auto simp: onWaitAsync_def)
  qed
  have third: "\<exists>r. onWaitAsync env now d timeout_ms = Some r"
    if c: "\<not> inflight (evolve env 0 n d)"
    using onWaitAsync_loop_completes[OF c, of now timeout_ms]
    by (auto simp: onWaitAsync_def)
  from first second third show ?thesis by blast
qed

theorem onWaitAsync_completion_witness:
  "onWaitAsync completes_in_third_sleep clock_10ms pending_query 100 =
     Some (True, pending_query\<lparr>inflight := False\<rparr>, 3)
   \<and> evolve completes_in_third_sleep 0 3 pending_query = pending_query\<lparr>inflight := False\<rparr>
   \<and> (15 :: 32 word) \<noteq> NOT 0 \<and> real (unat (15 :: 32 word)) \<le> clock_10ms 2 - clock_10ms 0
   \<and> inflight (evolve completes_in_third_sleep 0 0 pending_query)
   \<and> inflight (evolve completes_in_third_sleep 0 1 pending_query)
   \<and> inflight (evolve completes_in_third_sleep 0 2 pending_query)
   \<and> onWaitAsync completes_in_third_sleep clock_10ms pending_query 15 =
       Some (False, pending_query, 2)"
proof -
  have e: "evolve completes_in_third_sleep 0 0 pending_query = pending_query"
    "evolve completes_in_third_sleep 0 1 pending_query = pending_query"
    "evolve completes_in_third_sleep 0 2 pending_query = pending_query"
    "evolve completes_in_third_sleep 0 3 pending_query = pending_query\<lparr>inflight := False\<rparr>"
    by (simp_all add: completes_in_third_sleep_def numeral_2_eq_2 numeral_3_eq_3)
  have i: "inflight pending_query" by (simp add: pending_query_def)
  have w1: "onWaitAsync completes_in_third_sleep clock_10ms pending_query 100 =
     Some (True, pending_query\<lparr>inflight := False\<rparr>, 3)"
    using i by (simp add: onWaitAsync_def onWaitAsync_loop.simps completes_in_third_sleep_def
          clock_10ms_def)
  have h1: "(15 :: 32 word) \<noteq> NOT 0" by simp
  have h2: "real (unat (15 :: 32 word)) \<le> clock_10ms 2 - clock_10ms 0"
    by (simp add: clock_10ms_def)
  have h3: "\<forall>k \<le> 2. inflight (evolve completes_in_third_sleep 0 k pending_query)"
  proof (intro allI impI)
    fix k :: nat assume "k \<le> 2"
    then have "k = 0 \<or> k = 1 \<or> k = 2" by auto
    then show "inflight (evolve completes_in_third_sleep 0 k pending_query)"
      using e i by auto
  qed
  from onWaitAsync_completion[of completes_in_third_sleep clock_10ms pending_query 15 False
         pending_query 2 2] h1 h2 h3
  obtain t where t: "t \<le> 2"
    "onWaitAsync completes_in_third_sleep clock_10ms pending_query 15 =
       Some (False, evolve completes_in_third_sleep 0 t pending_query, t)"
    by auto
  have w2: "onWaitAsync completes_in_third_sleep clock_10ms pending_query 15 =
       Some (False, pending_query, 2)"
    using i by (simp add: onWaitAsync_def onWaitAsync_loop.simps completes_in_third_sleep_def
          clock_10ms_def)
  from w1 e h1 h2 i w2 t show ?thesis by simp
qed

section \<open>The clearing scenario\<close>

lemma integrateAdjust_threshold [simp]:
  "occupancy_threshold_value (integrateAdjust omap flags delta k) = occupancy_threshold_value omap"
  by (simp add: integrateAdjust_def)

lemma voxelValue_integrateAdjust_other:
  "k' \<noteq> k \<Longrightarrow> voxelValue (integrateAdjust omap flags delta k) k' = voxelValue omap k'"
  by (simp add: integrateAdjust_def voxelValue_setVoxelValue)

lemma isOccupied_threshold:
  "occupancy_threshold_value a = occupancy_threshold_value b \<Longrightarrow> isOccupied a v = isOccupied b v"
  by (simp add: isOccupied_def split: option.splits)

lemma walk_along_x:
  assumes "origin omap = (0, 0, 0)" "resolution omap = 1" "region_voxel_dimensions omap = (32, 32, 32)"
  shows "calculateSegmentKeys omap (0, 0, 0) (5, 0, 0) False =
           Some [local_key 0 0 0, local_key 1 0 0, local_key 2 0 0, local_key 3 0 0, local_key 4 0 0]"
  using assms by (simp add: walk_eval local_key_def)

lemma clearing_flags:
  "(7 :: 32 word) AND kRfStopOnFirstOccupied \<noteq> 0" "(7 :: 32 word) AND kRfExcludeOrigin = 0"
  "(7 :: 32 word) = kRfEndPointAsFree OR kRfStopOnFirstOccupied OR kRfClearOnly"
  by (simp_all add: RayFlag_defs)

lemma local_key_eq [simp]: "local_key x y z = local_key x' y' z' \<longleftrightarrow> x = x' \<and> y = y' \<and> z = z'"
  by (simp add: local_key_def)

lemma clearing_ray_halts:
  assumes geo: "origin omap = (0, 0, 0)" "resolution omap = 1" "region_voxel_dimensions omap = (32, 32, 32)"
    and free: "\<not> isOccupied omap (voxelValue omap (local_key 0 0 0))"
      "\<not> isOccupied omap (voxelValue omap (local_key 1 0 0))"
    and occ: "isOccupied omap (voxelValue omap (local_key 2 0 0))"
  shows "integrateRay omap 7 (0, 0, 0) (5, 0, 0) =
           Some (integrateMiss (integrateMiss omap 7 (local_key 0 0 0)) 7 (local_key 1 0 0))"
proof -
  let ?m1 = "integrateMiss omap 7 (local_key 0 0 0)"
  let ?m2 = "integrateMiss ?m1 7 (local_key 1 0 0)"
  have t1: "occupancy_threshold_value ?m1 = occupancy_threshold_value omap"
    and t2: "occupancy_threshold_value ?m2 = occupancy_threshold_value omap"
    by (simp_all add: integrateMiss_def)
  have v1: "voxelValue ?m1 (local_key 1 0 0) = voxelValue omap (local_key 1 0 0)"
    by (simp add: integrateMiss_def voxelValue_integrateAdjust_other)
  have v2: "voxelValue ?m2 (local_key 2 0 0) = voxelValue omap (local_key 2 0 0)"
    by (simp add: integrateMiss_def voxelValue_integrateAdjust_other)
  have o1: "\<not> isOccupied ?m1 (voxelValue ?m1 (local_key 1 0 0))"
    using free(2) v1 isOccupied_threshold[OF t1] by simp
  have o2: "isOccupied ?m2 (voxelValue ?m2 (local_key 2 0 0))"
    using occ v2 isOccupied_threshold[OF t2] by simp
  have "integrateTraversed omap 7 True
          [local_key 0 0 0, local_key 1 0 0, local_key 2 0 0, local_key 3 0 0, local_key 4 0 0]
        = (?m2, True)"
    using free(1) o1 o2 by (simp add: clearing_flags(1,2))
  then show ?thesis
    by (simp add: integrateRay_def walk_along_x[OF geo])
qed

lemma clearing_ray_set:
  "points (pattern imp) = [(5, 0, 0)] \<Longrightarrow>
   fst (buildRays (pattern imp) (ray_set imp) (0, 0, 0) quat_identity 1) = [(0, 0, 0), (5, 0, 0)]"
  by (simp add: buildRays_rays quat_rotate_identity)

text \<open>
  Claim C6.  On a map of resolution 1 with its origin at the world origin and regions of
  \<open>32 \<times> 32 \<times> 32\<close> voxels, whose only occupied voxels are \<open>(2, 0, 0)\<close> and
  \<open>(4, 0, 0)\<close> of region \<open>(0, 0, 0)\<close>, applying a clearing pattern with the single
  offset \<open>(5, 0, 0)\<close> at position 0 with the identity rotation and scaling 1 returns a
  map in which \<open>(2, 0, 0)\<close> has the value it had and is still occupied, and
  \<open>(4, 0, 0)\<close> has the value it had.  The ray halts at \<open>(2, 0, 0)\<close>: only the two
  voxels before it can have changed.
\<close>

theorem clearing_pattern_scenario:
  assumes geo: "origin omap = (0, 0, 0)" "resolution omap = 1"
      "region_voxel_dimensions omap = (32, 32, 32)"
    and pat: "points (pattern imp) = [(5, 0, 0)]"
    and occ: "\<forall>k. isOccupied omap (voxelValue omap k) \<longleftrightarrow> k = local_key 2 0 0 \<or> k = local_key 4 0 0"
  shows "\<exists>omap'. snd (ClearingPattern_apply integrateRays imp omap (0, 0, 0) quat_identity 1)
                  = Some (Inr omap')
           \<and> voxelValue omap' (local_key 2 0 0) = voxelValue omap (local_key 2 0 0)
           \<and> isOccupied omap' (voxelValue omap' (local_key 2 0 0))
           \<and> voxelValue omap' (local_key 4 0 0) = voxelValue omap (local_key 4 0 0)
           \<and> (\<forall>k. k \<noteq> local_key 0 0 0 \<and> k \<noteq> local_key 1 0 0 \<longrightarrow>
                  voxelValue omap' k = voxelValue omap k)"
proof -
  let ?m = "integrateMiss (integrateMiss omap 7 (local_key 0 0 0)) 7 (local_key 1 0 0)"
  have free: "\<not> isOccupied omap (voxelValue omap (local_key 0 0 0))"
    "\<not> isOccupied omap (voxelValue omap (local_key 1 0 0))"
    and occupied: "isOccupied omap (voxelValue omap (local_key 2 0 0))"
    using occ by simp_all
  have ray: "integrateRay omap 7 (0, 0, 0) (5, 0, 0) = Some ?m"
    by (rule clearing_ray_halts[OF geo free occupied])
  have run: "snd (ClearingPattern_apply integrateRays imp omap (0, 0, 0) quat_identity 1)
               = Some (Inr ?m)"
    using ray clearing_flags(3)
    by (simp add: ClearingPattern_apply_def Let_def clearing_ray_set[OF pat] integrateRays_def)
  have other: "voxelValue ?m k = voxelValue omap k"
    if "k \<noteq> local_key 0 0 0 \<and> k \<noteq> local_key 1 0 0" for k
    using that by (simp add: integrateMiss_def voxelValue_integrateAdjust_other)
  have thr: "occupancy_threshold_value ?m = occupancy_threshold_value omap"
    by (simp add: integrateMiss_def)
  have "voxelValue ?m (local_key 2 0 0) = voxelValue omap (local_key 2 0 0)"
    "voxelValue ?m (local_key 4 0 0) = voxelValue omap (local_key 4 0 0)"
    by (simp_all add: other)
  moreover from this(1) have "isOccupied ?m (voxelValue ?m (local_key 2 0 0))"
    using occupied isOccupied_threshold[OF thr] by simp
  ultimately show ?thesis using run other by blast
qed

lemma scenario_map_occupied:
  "isOccupied scenario_map (voxelValue scenario_map k) \<longleftrightarrow> k = local_key 2 0 0 \<or> k = local_key 4 0 0"
  by (cases k)
     (auto simp: isOccupied_def voxelValue_def scenario_map_def unit_map_def local_key_def
           split: if_splits option.splits)

theorem clearing_pattern_scenario_witness:
  "origin scenario_map = (0, 0, 0) \<and> resolution scenario_map = 1
   \<and> region_voxel_dimensions scenario_map = (32, 32, 32)
   \<and> points (pattern scenario_pattern) = [(5, 0, 0)]
   \<and> voxelValue scenario_map (local_key 2 0 0) = Some 1
   \<and> voxelValue scenario_map (local_key 4 0 0) = Some 1
   \<and> (\<exists>omap'. snd (ClearingPattern_apply integrateRays scenario_pattern scenario_map
                      (0, 0, 0) quat_identity 1) = Some (Inr omap')
          \<and> voxelValue omap' (local_key 0 0 0) = Some (- (1 / 2))
          \<and> voxelValue omap' (local_key 1 0 0) = Some (- (1 / 2))
          \<and> voxelValue omap' (local_key 2 0 0) = Some 1
          \<and> voxelValue omap' (local_key 3 0 0) = None
          \<and> voxelValue omap' (local_key 4 0 0) = Some 1
          \<and> voxelValue omap' (local_key 5 0 0) = None)"
proof -
  have geo: "origin scenario_map = (0, 0, 0)" "resolution scenario_map = 1"
    "region_voxel_dimensions scenario_map = (32, 32, 32)"
    by (simp_all add: scenario_map_def unit_map_def)
  have pat: "points (pattern scenario_pattern) = [(5, 0, 0)]"
    by (simp add: scenario_pattern_def)
  have occ: "\<forall>k. isOccupied scenario_map (voxelValue scenario_map k)
               \<longleftrightarrow> k = local_key 2 0 0 \<or> k = local_key 4 0 0"
    using scenario_map_occupied by blast
  have before: "voxelValue scenario_map (local_key 2 0 0) = Some 1"
    "voxelValue scenario_map (local_key 3 0 0) = None"
    "voxelValue scenario_map (local_key 4 0 0) = Some 1"
    "voxelValue scenario_map (local_key 5 0 0) = None"
    by (simp_all add: voxelValue_def scenario_map_def local_key_def)
  from clearing_pattern_scenario[OF geo pat occ]
  obtain omap' where r: "snd (ClearingPattern_apply integrateRays scenario_pattern scenario_map
                      (0, 0, 0) quat_identity 1) = Some (Inr omap')"
    and same: "\<forall>k. k \<noteq> local_key 0 0 0 \<and> k \<noteq> local_key 1 0 0 \<longrightarrow>
                  voxelValue omap' k = voxelValue scenario_map k"
    by blast
  have misses: "omap' = integrateMiss (integrateMiss scenario_map 7 (local_key 0 0 0)) 7 (local_key 1 0 0)"
    using r clearing_ray_halts[OF geo] scenario_map_occupied clearing_flags(3)
    by (simp add: ClearingPattern_apply_def Let_def clearing_ray_set[OF pat] integrateRays_def)
  have v0: "voxelValue omap' (local_key 0 0 0) = Some (- (1 / 2))"
    unfolding misses
    by (simp add: integrate_eval scenario_map_def unit_map_def local_key_def)
  have v1: "voxelValue omap' (local_key 1 0 0) = Some (- (1 / 2))"
    unfolding misses
    by (simp add: integrate_eval scenario_map_def unit_map_def local_key_def)
  from same before have "voxelValue omap' (local_key 2 0 0) = Some 1"
    "voxelValue omap' (local_key 3 0 0) = None"
    "voxelValue omap' (local_key 4 0 0) = Some 1"
    "voxelValue omap' (local_key 5 0 0) = None"
    by simp_all
  with geo pat before r v0 v1 show ?thesis by simp
qed

end
